theory Spec2Isabelle
  imports Complex_Main "HOL-Library.Monad_Syntax"
begin

section \<open>Time values of the ECMAScript Date object\<close>

text \<open>
  The functions of \<^verbatim>\<open>core-js-dates-tasks.js\<close> are thin wrappers around the built-in
  \<^verbatim>\<open>Date\<close> object. A Date holds a time value: an integral number of milliseconds
  since 1970-01-01T00:00:00Z, or NaN (an "Invalid Date"). A number that is an integer or
  NaN is modelled as \<open>int option\<close>, with \<open>None\<close> for NaN. The abstract operations
  below are those of ECMA-262, section "Date Objects", under the names the standard gives
  them. The local time zone is a parameter \<open>tz\<close> of every operation that reads or writes
  local time.
\<close>

type_synonym num = "int option"

definition msPerDay :: int where
  "msPerDay = 86400000"

definition msPerHour :: int where
  "msPerHour = 3600000"

definition msPerMinute :: int where
  "msPerMinute = 60000"

definition msPerSecond :: int where
  "msPerSecond = 1000"

definition maxTime :: int where
  "maxTime = 8640000000000000"

definition Day :: "int \<Rightarrow> int" where
  "Day t = t div msPerDay"

definition TimeWithinDay :: "int \<Rightarrow> int" where
  "TimeWithinDay t = t mod msPerDay"

definition DaysInYear :: "int \<Rightarrow> int" where
  "DaysInYear y =
     (if y mod 4 \<noteq> 0 then 365
      else if y mod 100 \<noteq> 0 then 366
      else if y mod 400 \<noteq> 0 then 365
      else 366)"

definition DayFromYear :: "int \<Rightarrow> int" where
  "DayFromYear y =
     365 * (y - 1970) + (y - 1969) div 4 - (y - 1901) div 100 + (y - 1601) div 400"

definition TimeFromYear :: "int \<Rightarrow> int" where
  "TimeFromYear y = msPerDay * DayFromYear y"

text \<open>
  The standard defines \<open>YearFromTime t\<close> as the largest integer \<open>y\<close> with
  \<open>TimeFromYear y \<le> t\<close>. The definition computes it: an estimate from the mean length
  of a year (146097 days in 400 years), corrected by at most one year. Lemma
  \<open>YearFromTime_largest\<close> below proves that it is the year the standard describes.
\<close>

definition YearFromTime :: "int \<Rightarrow> int" where
  "YearFromTime t =
     (let d = Day t; y0 = 1970 + (400 * d) div 146097
      in if d < DayFromYear y0 then y0 - 1
         else if DayFromYear (y0 + 1) \<le> d then y0 + 1
         else y0)"

definition InLeapYear :: "int \<Rightarrow> int" where
  "InLeapYear t = (if DaysInYear (YearFromTime t) = 365 then 0 else 1)"

definition DayWithinYear :: "int \<Rightarrow> int" where
  "DayWithinYear t = Day t - DayFromYear (YearFromTime t)"

definition MonthFromTime :: "int \<Rightarrow> int" where
  "MonthFromTime t =
     (let d = DayWithinYear t; l = InLeapYear t
      in if d < 31 then 0
         else if d < 59 + l then 1
         else if d < 90 + l then 2
         else if d < 120 + l then 3
         else if d < 151 + l then 4
         else if d < 181 + l then 5
         else if d < 212 + l then 6
         else if d < 243 + l then 7
         else if d < 273 + l then 8
         else if d < 304 + l then 9
         else if d < 334 + l then 10
         else 11)"

definition DateFromTime :: "int \<Rightarrow> int" where
  "DateFromTime t =
     (let d = DayWithinYear t; l = InLeapYear t; m = MonthFromTime t
      in if m = 0 then d + 1
         else if m = 1 then d - 30
         else if m = 2 then d - 58 - l
         else if m = 3 then d - 89 - l
         else if m = 4 then d - 119 - l
         else if m = 5 then d - 150 - l
         else if m = 6 then d - 180 - l
         else if m = 7 then d - 211 - l
         else if m = 8 then d - 242 - l
         else if m = 9 then d - 272 - l
         else if m = 10 then d - 303 - l
         else d - 333 - l)"

definition WeekDay :: "int \<Rightarrow> int" where
  "WeekDay t = (Day t + 4) mod 7"

definition HourFromTime :: "int \<Rightarrow> int" where
  "HourFromTime t = (t div msPerHour) mod 24"

definition MinFromTime :: "int \<Rightarrow> int" where
  "MinFromTime t = (t div msPerMinute) mod 60"

definition SecFromTime :: "int \<Rightarrow> int" where
  "SecFromTime t = (t div msPerSecond) mod 60"

subsection \<open>The local time zone\<close>

text \<open>
  The standard leaves the local time zone to the implementation: \<open>LocalTZA(t, isUTC)\<close>
  is the offset of local time from UTC, in milliseconds, at the time value \<open>t\<close> when
  \<open>isUTC\<close> is true, and the offset to read the local time \<open>t\<close> with when \<open>isUTC\<close> is
  false. Where the offset of the zone changes, a local time that the change skips is read
  with the offset before the change, and a local time that occurs twice is read as its
  first occurrence. A zone is such a function. One condition is part of the type: the
  same time of day on the next day of the local calendar, which
  \<^verbatim>\<open>i.setDate(i.getDate() + 1)\<close> asks for, is a later time. Read in the way just
  described, the changes of offset of a zone keep to it when they are more than a day
  apart and none sets the clocks back by more than a day. The loops of the module end
  because of it.
\<close>

typedef zone =
  "{f :: int \<Rightarrow> bool \<Rightarrow> int. \<forall>t. f (t + f t True + msPerDay) False < f t True + msPerDay}"
  by (rule exI[of _ "\<lambda>t isUTC. 0"]) (simp add: msPerDay_def)

setup_lifting type_definition_zone

lift_definition LocalTZA :: "zone \<Rightarrow> int \<Rightarrow> bool \<Rightarrow> int" is
  "\<lambda>f t isUTC. f t isUTC" .

definition LocalTime :: "zone \<Rightarrow> int \<Rightarrow> int" where
  "LocalTime tz t = t + LocalTZA tz t True"

definition UTC :: "zone \<Rightarrow> int \<Rightarrow> int" where
  "UTC tz t = t - LocalTZA tz t False"

text \<open>A zone whose offset never changes, as UTC, with offset 0.\<close>

lift_definition fixed_offset :: "int \<Rightarrow> zone" is
  "\<lambda>tza t isUTC. tza"
  by (simp add: msPerDay_def)

definition MakeTime :: "int \<Rightarrow> int \<Rightarrow> int \<Rightarrow> int \<Rightarrow> int" where
  "MakeTime hour mn sec ms = hour * msPerHour + mn * msPerMinute + sec * msPerSecond + ms"

text \<open>
  \<open>MakeDay\<close>: the standard asks for a time value \<open>t\<close> whose year is \<open>ym\<close>, whose month
  is \<open>mn\<close> and whose date is 1, and gives the day number of \<open>t\<close> plus \<open>date - 1\<close>, or NaN
  when an argument is out of range. V8, the engine of Node, on which the module runs,
  computes the day number of that first day of the month whether or not the day is
  itself within the range of time values (20 April -271821, the day the range begins
  with, is a day of a month whose first day is before the range), and takes as out of
  range a year beyond one million or a month beyond ten million, on either side. The
  first day of month \<open>mn\<close> is \<open>monthStart\<close> days into its year; lemma
  \<open>MakeDay_first_of_month\<close> proves that it has the fields asked for.
\<close>

definition monthStart :: "int \<Rightarrow> int \<Rightarrow> int" where
  "monthStart y mn =
     (let l = (if DaysInYear y = 365 then 0 else 1)
      in if mn = 0 then 0
         else if mn = 1 then 31
         else if mn = 2 then 59 + l
         else if mn = 3 then 90 + l
         else if mn = 4 then 120 + l
         else if mn = 5 then 151 + l
         else if mn = 6 then 181 + l
         else if mn = 7 then 212 + l
         else if mn = 8 then 243 + l
         else if mn = 9 then 273 + l
         else if mn = 10 then 304 + l
         else 334 + l)"

definition MakeDay :: "int \<Rightarrow> int \<Rightarrow> int \<Rightarrow> num" where
  "MakeDay year month date =
     (if - 1000000 \<le> year \<and> year \<le> 1000000 \<and> - 10000000 \<le> month \<and> month \<le> 10000000
      then (let ym = year + month div 12; mn = month mod 12
            in Some (DayFromYear ym + monthStart ym mn + date - 1))
      else None)"

definition MakeDate :: "int \<Rightarrow> int \<Rightarrow> int" where
  "MakeDate day time = day * msPerDay + time"

definition TimeClip :: "int \<Rightarrow> num" where
  "TimeClip time = (if \<bar>time\<bar> > maxTime then None else Some time)"

definition MakeFullYear :: "int \<Rightarrow> int" where
  "MakeFullYear y = (if 0 \<le> y \<and> y \<le> 99 then 1900 + y else y)"

subsection \<open>The Date constructor and the accessors the module calls\<close>

text \<open>
  \<^verbatim>\<open>new Date(year, month, date, hours, minutes, seconds)\<close>: the fields are read as local
  time; a year from 0 to 99 means 1900 + year. \<^verbatim>\<open>new Date(year, month, date)\<close> is the
  same with the time fields 0. A NaN argument gives an Invalid Date.
\<close>

definition Date_of_fields :: "zone \<Rightarrow> num \<Rightarrow> num \<Rightarrow> num \<Rightarrow> num \<Rightarrow> num \<Rightarrow> num \<Rightarrow> num" where
  "Date_of_fields tz year month date hours minutes seconds =
     do {
       y \<leftarrow> year; m \<leftarrow> month; dt \<leftarrow> date;
       h \<leftarrow> hours; mi \<leftarrow> minutes; s \<leftarrow> seconds;
       day \<leftarrow> MakeDay (MakeFullYear y) m dt;
       TimeClip (UTC tz (MakeDate day (MakeTime h mi s 0)))
     }"

definition Date_ymd :: "zone \<Rightarrow> num \<Rightarrow> num \<Rightarrow> num \<Rightarrow> num" where
  "Date_ymd tz year month date = Date_of_fields tz year month date (Some 0) (Some 0) (Some 0)"

definition getFullYear :: "zone \<Rightarrow> num \<Rightarrow> num" where
  "getFullYear tz d = map_option (\<lambda>t. YearFromTime (LocalTime tz t)) d"

definition getMonth :: "zone \<Rightarrow> num \<Rightarrow> num" where
  "getMonth tz d = map_option (\<lambda>t. MonthFromTime (LocalTime tz t)) d"

definition getDate :: "zone \<Rightarrow> num \<Rightarrow> num" where
  "getDate tz d = map_option (\<lambda>t. DateFromTime (LocalTime tz t)) d"

definition getDay :: "zone \<Rightarrow> num \<Rightarrow> num" where
  "getDay tz d = map_option (\<lambda>t. WeekDay (LocalTime tz t)) d"

definition getHours :: "zone \<Rightarrow> num \<Rightarrow> num" where
  "getHours tz d = map_option (\<lambda>t. HourFromTime (LocalTime tz t)) d"

definition getMinutes :: "zone \<Rightarrow> num \<Rightarrow> num" where
  "getMinutes tz d = map_option (\<lambda>t. MinFromTime (LocalTime tz t)) d"

definition getSeconds :: "zone \<Rightarrow> num \<Rightarrow> num" where
  "getSeconds tz d = map_option (\<lambda>t. SecFromTime (LocalTime tz t)) d"

definition getUTCFullYear :: "num \<Rightarrow> num" where
  "getUTCFullYear d = map_option YearFromTime d"

definition getUTCMonth :: "num \<Rightarrow> num" where
  "getUTCMonth d = map_option MonthFromTime d"

definition getUTCDate :: "num \<Rightarrow> num" where
  "getUTCDate d = map_option DateFromTime d"

definition getUTCHours :: "num \<Rightarrow> num" where
  "getUTCHours d = map_option HourFromTime d"

definition getUTCMinutes :: "num \<Rightarrow> num" where
  "getUTCMinutes d = map_option MinFromTime d"

definition getUTCSeconds :: "num \<Rightarrow> num" where
  "getUTCSeconds d = map_option SecFromTime d"

text \<open>
  \<^verbatim>\<open>d.setDate(date)\<close> replaces the day of the month, in local time, and keeps the time
  of day; the result is the Date's new time value. On an Invalid Date, or with NaN, the
  Date is (or stays) invalid.
\<close>

definition setDate :: "zone \<Rightarrow> num \<Rightarrow> num \<Rightarrow> num" where
  "setDate tz d date =
     do {
       t0 \<leftarrow> d; dt \<leftarrow> date;
       let t = LocalTime tz t0;
       day \<leftarrow> MakeDay (YearFromTime t) (MonthFromTime t) dt;
       TimeClip (UTC tz (MakeDate day (TimeWithinDay t)))
     }"

text \<open>
  Arithmetic and comparison of numbers that may be NaN: NaN propagates through
  \<^verbatim>\<open>+\<close>, \<^verbatim>\<open>-\<close> and \<^verbatim>\<open>%\<close>, and every comparison with NaN is false. The
  remainder \<^verbatim>\<open>%\<close> takes the sign of the dividend.
\<close>

definition num_add :: "num \<Rightarrow> num \<Rightarrow> num" where
  "num_add a b = do { x \<leftarrow> a; y \<leftarrow> b; Some (x + y) }"

definition num_sub :: "num \<Rightarrow> num \<Rightarrow> num" where
  "num_sub a b = do { x \<leftarrow> a; y \<leftarrow> b; Some (x - y) }"

definition num_rem :: "num \<Rightarrow> num \<Rightarrow> num" where
  "num_rem a b =
     do { x \<leftarrow> a; y \<leftarrow> b;
          if y = 0 then None else Some (sgn x * (\<bar>x\<bar> mod \<bar>y\<bar>)) }"

definition num_le :: "num \<Rightarrow> num \<Rightarrow> bool" where
  "num_le a b = (case (a, b) of (Some x, Some y) \<Rightarrow> x \<le> y | _ \<Rightarrow> False)"

definition num_ge :: "num \<Rightarrow> num \<Rightarrow> bool" where
  "num_ge a b = (case (a, b) of (Some x, Some y) \<Rightarrow> x \<ge> y | _ \<Rightarrow> False)"

definition num_eq :: "num \<Rightarrow> num \<Rightarrow> bool" where
  "num_eq a b = (case (a, b) of (Some x, Some y) \<Rightarrow> x = y | _ \<Rightarrow> False)"

section \<open>Calendar arithmetic\<close>

text \<open>
  Facts about the abstract operations: the year computed by \<open>YearFromTime\<close> is the one
  the standard describes, a day number splits into year, month and date, and
  \<open>MakeDay\<close> puts them together again.
\<close>

lemma div_succ:
  fixes x k :: int
  assumes "0 < k"
  shows "(x + 1) div k = x div k + (if (x + 1) mod k = 0 then 1 else 0)"
proof (cases "x mod k + 1 < k")
  case True
  have e: "x + 1 = k * (x div k) + (x mod k + 1)" by simp
  have "(x + 1) div k = x div k"
    using int_div_pos_eq[OF e _ True] assms by simp
  moreover have "(x + 1) mod k = x mod k + 1"
    using int_mod_pos_eq[OF e _ True] assms by simp
  moreover have "x mod k + 1 \<noteq> 0"
    using pos_mod_sign[OF assms, of x] by linarith
  ultimately show ?thesis by simp
next
  case False
  then have r: "x mod k + 1 = k" using assms pos_mod_bound[of k x] by linarith
  have "x + 1 = k * (x div k) + (x mod k + 1)" by simp
  then have e: "x + 1 = k * (x div k + 1) + 0" unfolding r by (simp add: algebra_simps)
  have "(x + 1) div k = x div k + 1"
    using int_div_pos_eq[OF e] assms by simp
  moreover have "(x + 1) mod k = 0"
    using int_mod_pos_eq[OF e] assms by simp
  ultimately show ?thesis by simp
qed

lemma mod_shift: "k dvd c \<Longrightarrow> ((y - c) mod k = 0) = ((y::int) mod k = 0)"
  by (metis mod_eq_0_iff_dvd mod_eq_dvd_iff)

lemma div_bounds:
  fixes x k :: int
  assumes "0 < k"
  shows "k * (x div k) \<le> x" and "x - k < k * (x div k)"
proof -
  have "x = k * (x div k) + x mod k" by simp
  moreover have "0 \<le> x mod k" "x mod k < k" using assms by simp_all
  ultimately show "k * (x div k) \<le> x" and "x - k < k * (x div k)" by linarith+
qed

lemma DayFromYear_lower: "146097 * (y - 1970) - 800 < 400 * DayFromYear y"
proof -
  define a where "a = (y - 1969) div 4"
  define b where "b = (y - 1901) div 100"
  define c where "c = (y - 1601) div 400"
  define n where "n = y - 1970"
  have "4 * a > y - 1969 - 4" "100 * b \<le> y - 1901" "400 * c > y - 1601 - 400"
    unfolding a_def b_def c_def by (simp_all add: div_bounds)
  moreover have "DayFromYear y = 365 * n + a - b + c"
    by (simp add: DayFromYear_def a_def b_def c_def n_def)
  ultimately show ?thesis unfolding n_def[symmetric] using n_def by linarith
qed

lemma DayFromYear_upper: "400 * DayFromYear y < 146097 * (y - 1970) + 800"
proof -
  define a where "a = (y - 1969) div 4"
  define b where "b = (y - 1901) div 100"
  define c where "c = (y - 1601) div 400"
  define n where "n = y - 1970"
  have "4 * a \<le> y - 1969" "100 * b > y - 1901 - 100" "400 * c \<le> y - 1601"
    unfolding a_def b_def c_def by (simp_all add: div_bounds)
  moreover have "DayFromYear y = 365 * n + a - b + c"
    by (simp add: DayFromYear_def a_def b_def c_def n_def)
  ultimately show ?thesis unfolding n_def[symmetric] using n_def by linarith
qed

lemma DayFromYear_Suc: "DayFromYear (y + 1) = DayFromYear y + DaysInYear y"
proof -
  have a: "(y + 1 - 1969) div 4 = (y - 1969) div 4 + (if y mod 4 = 0 then 1 else 0)"
    using div_succ[of 4 "y - 1969"] mod_shift[of 4 1968 y] by (simp add: algebra_simps)
  have b: "(y + 1 - 1901) div 100 = (y - 1901) div 100 + (if y mod 100 = 0 then 1 else 0)"
    using div_succ[of 100 "y - 1901"] mod_shift[of 100 1900 y] by (simp add: algebra_simps)
  have c: "(y + 1 - 1601) div 400 = (y - 1601) div 400 + (if y mod 400 = 0 then 1 else 0)"
    using div_succ[of 400 "y - 1601"] mod_shift[of 400 1600 y] by (simp add: algebra_simps)
  have "(100::int) dvd 400" "(4::int) dvd 100" by simp_all
  then have d: "y mod 400 = 0 \<Longrightarrow> y mod 100 = 0" "y mod 100 = 0 \<Longrightarrow> y mod 4 = 0"
    using dvd_trans[of 100 400 y] dvd_trans[of 4 100 y] by (simp_all add: mod_eq_0_iff_dvd)
  show ?thesis
    unfolding DayFromYear_def DaysInYear_def a b c using d by auto
qed

lemma YearFromTime_bounds:
  "DayFromYear (YearFromTime t) \<le> Day t \<and> Day t < DayFromYear (YearFromTime t + 1)"
proof -
  define d where "d = Day t"
  define n where "n = (400 * d) div 146097"
  have n: "146097 * n \<le> 400 * d" "400 * d < 146097 * n + 146097"
    unfolding n_def using div_bounds[of 146097 "400 * d"] by simp_all
  have l: "400 * DayFromYear (1970 + n - 1) < 146097 * (n - 1) + 800"
    using DayFromYear_upper[of "1970 + n - 1"] by simp
  have u: "146097 * (n + 2) - 800 < 400 * DayFromYear (1970 + n + 1 + 1)"
    using DayFromYear_lower[of "1970 + n + 1 + 1"] by simp
  have "YearFromTime t = (if d < DayFromYear (1970 + n) then 1970 + n - 1
         else if DayFromYear (1970 + n + 1) \<le> d then 1970 + n + 1 else 1970 + n)"
    by (simp add: YearFromTime_def Let_def d_def n_def)
  then show ?thesis
    unfolding d_def[symmetric] using n l u by (auto split: if_splits)
qed

lemma DaysInYear_cases: "DaysInYear y = 365 \<or> DaysInYear y = 366"
  by (simp add: DaysInYear_def)

lemma DayWithinYear_bounds:
  "0 \<le> DayWithinYear t \<and> DayWithinYear t < DaysInYear (YearFromTime t)"
  using YearFromTime_bounds[of t] DayFromYear_Suc[of "YearFromTime t"]
  by (simp add: DayWithinYear_def)

lemma Day_decomp:
  "Day t = DayFromYear (YearFromTime t) + monthStart (YearFromTime t) (MonthFromTime t)
            + DateFromTime t - 1"
proof -
  have "DateFromTime t = DayWithinYear t - monthStart (YearFromTime t) (MonthFromTime t) + 1"
    by (simp add: DateFromTime_def monthStart_def InLeapYear_def Let_def)
  then show ?thesis by (simp add: DayWithinYear_def)
qed

lemma MonthFromTime_range: "0 \<le> MonthFromTime t \<and> MonthFromTime t \<le> 11"
  by (simp add: MonthFromTime_def Let_def)

lemma DateFromTime_range: "1 \<le> DateFromTime t \<and> DateFromTime t \<le> 31"
proof -
  define d where "d = DayWithinYear t"
  define y where "y = YearFromTime t"
  define l where "l = (if DaysInYear y = 365 then 0 else 1::int)"
  have e: "DateFromTime t = d - monthStart y (MonthFromTime t) + 1"
    unfolding d_def y_def
    by (simp add: DateFromTime_def monthStart_def InLeapYear_def Let_def)
  have b: "0 \<le> d" "d < 365 + l"
    using DayWithinYear_bounds[of t] DaysInYear_cases[of y] unfolding d_def y_def l_def by auto
  have l: "l = 0 \<or> l = 1" by (simp add: l_def)
  have m: "MonthFromTime t = (if d < 31 then 0
         else if d < 59 + l then 1
         else if d < 90 + l then 2
         else if d < 120 + l then 3
         else if d < 151 + l then 4
         else if d < 181 + l then 5
         else if d < 212 + l then 6
         else if d < 243 + l then 7
         else if d < 273 + l then 8
         else if d < 304 + l then 9
         else if d < 334 + l then 10
         else 11)"
    by (simp add: MonthFromTime_def InLeapYear_def Let_def d_def y_def l_def)
  have s: "monthStart y mn = (if mn = 0 then 0
         else if mn = 1 then 31
         else if mn = 2 then 59 + l
         else if mn = 3 then 90 + l
         else if mn = 4 then 120 + l
         else if mn = 5 then 151 + l
         else if mn = 6 then 181 + l
         else if mn = 7 then 212 + l
         else if mn = 8 then 243 + l
         else if mn = 9 then 273 + l
         else if mn = 10 then 304 + l
         else 334 + l)" for mn
    by (simp add: monthStart_def l_def Let_def)
  show ?thesis unfolding e m s using b l by auto
qed

lemma DayFromYear_add: "DayFromYear y + 365 * int n \<le> DayFromYear (y + int n)"
proof (induction n)
  case 0
  then show ?case by simp
next
  case (Suc n)
  have "DayFromYear (y + int (Suc n)) = DayFromYear (y + int n) + DaysInYear (y + int n)"
    using DayFromYear_Suc[of "y + int n"] by (simp add: algebra_simps)
  then show ?case using Suc DaysInYear_cases[of "y + int n"] by auto
qed

lemma DayFromYear_strict_mono: "y < y' \<Longrightarrow> DayFromYear y < DayFromYear y'"
proof -
  assume "y < y'"
  then obtain n where n: "y' = y + int (Suc n)"
    using zless_iff_Suc_zadd by blast
  show ?thesis using DayFromYear_add[of y "Suc n"] unfolding n by simp
qed

lemma DayFromYear_mono: "y \<le> y' \<Longrightarrow> DayFromYear y \<le> DayFromYear y'"
  using DayFromYear_strict_mono[of y y'] by (cases "y = y'") auto

lemma YearFromTime_unique:
  assumes "DayFromYear y \<le> Day t" and "Day t < DayFromYear (y + 1)"
  shows "YearFromTime t = y"
proof (rule ccontr)
  assume ne: "YearFromTime t \<noteq> y"
  note b = YearFromTime_bounds[of t]
  show False
  proof (cases "YearFromTime t < y")
    case True
    then have "DayFromYear (YearFromTime t + 1) \<le> DayFromYear y"
      by (intro DayFromYear_mono) simp
    then show False using b assms by linarith
  next
    case False
    then have "DayFromYear (y + 1) \<le> DayFromYear (YearFromTime t)"
      using ne by (intro DayFromYear_mono) simp
    then show False using b assms by linarith
  qed
qed

lemma Day_msPerDay: "Day (msPerDay * x) = x" "Day (x * msPerDay) = x"
  by (simp_all add: Day_def msPerDay_def)

lemma mult_le_iff_le_div:
  fixes a t k :: int
  assumes "0 < k"
  shows "k * a \<le> t \<longleftrightarrow> a \<le> t div k"
proof
  assume "k * a \<le> t"
  then have "k * a < k * (t div k + 1)"
    using div_bounds(2)[OF assms, of t] by (simp add: algebra_simps)
  then have "a < t div k + 1" using assms by (simp add: mult_less_cancel_left_pos)
  then show "a \<le> t div k" by simp
next
  assume "a \<le> t div k"
  then have "k * a \<le> k * (t div k)" using assms by (simp add: mult_le_cancel_left_pos)
  then show "k * a \<le> t" using div_bounds(1)[OF assms, of t] by linarith
qed

lemma TimeFromYear_le_iff: "TimeFromYear y \<le> t \<longleftrightarrow> DayFromYear y \<le> Day t"
  using mult_le_iff_le_div[of msPerDay "DayFromYear y" t]
  by (simp add: TimeFromYear_def Day_def msPerDay_def)

text \<open>YearFromTime is the largest year whose start is not after t.\<close>

lemma YearFromTime_largest: "TimeFromYear y \<le> t \<longleftrightarrow> y \<le> YearFromTime t"
proof
  assume "TimeFromYear y \<le> t"
  then have a: "DayFromYear y \<le> Day t" by (simp add: TimeFromYear_le_iff)
  show "y \<le> YearFromTime t"
  proof (rule ccontr)
    assume "\<not> y \<le> YearFromTime t"
    then have "DayFromYear (YearFromTime t + 1) \<le> DayFromYear y"
      by (intro DayFromYear_mono) simp
    then show False using a YearFromTime_bounds[of t] by linarith
  qed
next
  assume "y \<le> YearFromTime t"
  then have "DayFromYear y \<le> DayFromYear (YearFromTime t)" by (rule DayFromYear_mono)
  then show "TimeFromYear y \<le> t"
    using YearFromTime_bounds[of t] by (simp add: TimeFromYear_le_iff)
qed

text \<open>The number of days of month \<open>m\<close> (0 to 11) of year \<open>y\<close>.\<close>

definition DaysInMonth :: "int \<Rightarrow> int \<Rightarrow> int" where
  "DaysInMonth y m =
     (if m = 1 then (if DaysInYear y = 365 then 28 else 29)
      else if m = 3 \<or> m = 5 \<or> m = 8 \<or> m = 10 then 30
      else 31)"

lemma fields_of_day:
  fixes y m d :: int
  assumes "0 \<le> m" "m \<le> 11" "1 \<le> d" "d \<le> DaysInMonth y m"
    and day: "Day t = DayFromYear y + monthStart y m + d - 1"
  shows "YearFromTime t = y \<and> MonthFromTime t = m \<and> DateFromTime t = d"
proof -
  define l where "l = (if DaysInYear y = 365 then 0 else 1::int)"
  have l: "l = 0 \<or> l = 1" by (simp add: l_def)
  have diy: "DaysInYear y = 365 + l" using DaysInYear_cases[of y] by (auto simp: l_def)
  have s: "monthStart y k = (if k = 0 then 0
         else if k = 1 then 31
         else if k = 2 then 59 + l
         else if k = 3 then 90 + l
         else if k = 4 then 120 + l
         else if k = 5 then 151 + l
         else if k = 6 then 181 + l
         else if k = 7 then 212 + l
         else if k = 8 then 243 + l
         else if k = 9 then 273 + l
         else if k = 10 then 304 + l
         else 334 + l)" for k
    by (simp add: monthStart_def l_def Let_def)
  have dm: "DaysInMonth y k = (if k = 1 then 28 + l
      else if k = 3 \<or> k = 5 \<or> k = 8 \<or> k = 10 then 30 else 31)" for k
    by (simp add: DaysInMonth_def l_def)
  have mc: "m = 0 \<or> m = 1 \<or> m = 2 \<or> m = 3 \<or> m = 4 \<or> m = 5 \<or> m = 6
      \<or> m = 7 \<or> m = 8 \<or> m = 9 \<or> m = 10 \<or> m = 11"
    using assms(1,2) by arith
  have sb: "0 \<le> monthStart y m + d - 1" "monthStart y m + d - 1 < 365 + l"
    using mc l assms(3,4) by (elim disjE; simp add: s dm)+
  have yy: "YearFromTime t = y"
    by (rule YearFromTime_unique) (use day sb diy DayFromYear_Suc[of y] in auto)
  have dwy: "DayWithinYear t = monthStart y m + d - 1" by (simp add: DayWithinYear_def yy day)
  have il: "InLeapYear t = l" by (simp add: InLeapYear_def yy l_def)
  have mm: "MonthFromTime t = m"
    using mc l assms(3,4) by (elim disjE; simp add: MonthFromTime_def dwy il s dm Let_def)
  have "DateFromTime t = d"
    using mc l by (elim disjE; simp add: DateFromTime_def dwy il mm s Let_def)
  then show ?thesis using yy mm by simp
qed


lemma Day_TimeWithinDay: "Day t * msPerDay + TimeWithinDay t = t"
  by (simp add: Day_def TimeWithinDay_def)

lemma MakeDay_of_time:
  "MakeDay (YearFromTime t) (MonthFromTime t) dt =
     (if - 1000000 \<le> YearFromTime t \<and> YearFromTime t \<le> 1000000
      then Some (Day t - DateFromTime t + dt) else None)"
proof -
  have m: "MonthFromTime t div 12 = 0" "MonthFromTime t mod 12 = MonthFromTime t"
    "- 10000000 \<le> MonthFromTime t" "MonthFromTime t \<le> 10000000"
    using MonthFromTime_range[of t] by simp_all
  have f: "DayFromYear (YearFromTime t) + monthStart (YearFromTime t) (MonthFromTime t)
      = Day t - DateFromTime t + 1"
    using Day_decomp[of t] by simp
  show ?thesis
    by (simp add: MakeDay_def m Let_def f)
qed

lemma LocalTZA_fixed_offset [simp]: "LocalTZA (fixed_offset tza) t isUTC = tza"
  by (simp add: LocalTZA.rep_eq fixed_offset.rep_eq)

lemma LocalTZA_next_day:
  "LocalTZA tz (t + LocalTZA tz t True + msPerDay) False < LocalTZA tz t True + msPerDay"
  using Rep_zone[of tz] by (simp add: LocalTZA.rep_eq)

lemma setDate_Some:
  "setDate (fixed_offset tza) (Some t) (Some dt) =
     (if - 1000000 \<le> YearFromTime (t + tza) \<and> YearFromTime (t + tza) \<le> 1000000
      then TimeClip (t + (dt - DateFromTime (t + tza)) * msPerDay) else None)"
proof -
  have "(Day (t + tza) - DateFromTime (t + tza) + dt) * msPerDay + TimeWithinDay (t + tza) - tza
     = t + (dt - DateFromTime (t + tza)) * msPerDay"
    using Day_TimeWithinDay[of "t + tza"] by (simp add: algebra_simps)
  then show ?thesis
    by (simp add: setDate_def LocalTime_def UTC_def MakeDate_def MakeDay_of_time Let_def)
qed

text \<open>
  In every zone \<^verbatim>\<open>i.setDate(i.getDate() + 1)\<close> either invalidates the Date or moves it
  to a later time.
\<close>

lemma setDate_next:
  assumes "setDate tz (Some t) (num_add (getDate tz (Some t)) (Some 1)) = Some t'"
  shows "t < t' \<and> t' \<le> maxTime"
proof -
  define L where "L = LocalTime tz t"
  have d: "MakeDay (YearFromTime L) (MonthFromTime L) (DateFromTime L + 1) = Some (Day L + 1)"
    using assms
    by (simp add: setDate_def getDate_def num_add_def L_def[symmetric] MakeDay_of_time Let_def
        split: if_splits)
  have "(Day L + 1) * msPerDay + TimeWithinDay L = L + msPerDay"
    using Day_TimeWithinDay[of L] by (simp add: algebra_simps)
  then have c: "TimeClip (L + msPerDay - LocalTZA tz (L + msPerDay) False) = Some t'"
    using assms
    by (simp add: setDate_def getDate_def num_add_def L_def[symmetric] d Let_def UTC_def
        MakeDate_def)
  then have t': "t' = L + msPerDay - LocalTZA tz (L + msPerDay) False" "t' \<le> maxTime"
    by (auto simp: TimeClip_def split: if_splits)
  have "LocalTZA tz (L + msPerDay) False < LocalTZA tz t True + msPerDay"
    using LocalTZA_next_day[of tz t] by (simp add: L_def LocalTime_def)
  then show ?thesis using t' by (simp add: L_def LocalTime_def)
qed
section \<open>Strings, numbers and parsing\<close>

text \<open>
  Template literals and string concatenation turn a number into its decimal digits
  (\<^verbatim>\<open>NaN\<close> for NaN).
\<close>

definition digit_char :: "nat \<Rightarrow> char" where
  "digit_char n = ''0123456789'' ! n"

fun digits :: "nat \<Rightarrow> string" where
  "digits n = (if n < 10 then [digit_char n] else digits (n div 10) @ [digit_char (n mod 10)])"

declare digits.simps [simp del]

definition num_to_string :: "num \<Rightarrow> string" where
  "num_to_string x =
     (case x of
        None \<Rightarrow> ''NaN''
      | Some v \<Rightarrow> if v < 0 then CHR ''-'' # digits (nat (- v)) else digits (nat v))"

text \<open>
  \<^verbatim>\<open>s.split('-')\<close> cuts a string at every separator; the pieces may be empty.
\<close>

fun split_on :: "char \<Rightarrow> string \<Rightarrow> string list" where
  "split_on c [] = [[]]"
| "split_on c (x # xs) =
     (if x = c then [] # split_on c xs
      else (case split_on c xs of p # ps \<Rightarrow> (x # p) # ps | [] \<Rightarrow> [[x]]))"

text \<open>
  \<^verbatim>\<open>arr[k]\<close> is \<^verbatim>\<open>undefined\<close> past the end of the array (\<open>None\<close> here).
\<close>

definition index :: "'a list \<Rightarrow> nat \<Rightarrow> 'a option" where
  "index arr k = (if k < length arr then Some (arr ! k) else None)"

definition digit_val :: "char \<Rightarrow> nat option" where
  "digit_val c = map_of (zip ''0123456789'' [0, 1, 2, 3, 4, 5, 6, 7, 8, 9]) c"

fun decimal :: "nat \<Rightarrow> string \<Rightarrow> nat option" where
  "decimal acc [] = Some acc"
| "decimal acc (c # cs) =
     (case digit_val c of None \<Rightarrow> None | Some v \<Rightarrow> decimal (10 * acc + v) cs)"

text \<open>
  \<open>ToNumber\<close>, the conversion a string or \<^verbatim>\<open>undefined\<close> goes through when it is an
  argument of the Date constructor or an operand of \<^verbatim>\<open>-\<close>: \<^verbatim>\<open>undefined\<close> is NaN,
  the empty string is 0, a string of decimal digits is its value. Any other string is
  NaN here; the numeric literals with a sign, a fraction, an exponent, a radix prefix or
  white space, which JavaScript also reads, do not occur in the date formats of the
  module.
\<close>

definition ToNumber :: "string option \<Rightarrow> num" where
  "ToNumber v = (case v of None \<Rightarrow> None | Some s \<Rightarrow> map_option int (decimal 0 s))"

text \<open>
  \<^verbatim>\<open>new Date(string)\<close> parses the date-time string format of ECMA-262:
  \<^verbatim>\<open>YYYY\<close>, \<^verbatim>\<open>YYYY-MM\<close> or \<^verbatim>\<open>YYYY-MM-DD\<close>, then optionally \<^verbatim>\<open>THH:mm\<close>,
  \<^verbatim>\<open>THH:mm:ss\<close> or \<^verbatim>\<open>THH:mm:ss.sss\<close>, then optionally \<^verbatim>\<open>Z\<close> or an offset
  \<^verbatim>\<open>+HH:mm\<close> or \<^verbatim>\<open>-HH:mm\<close>. A date alone is UTC; a date and time without offset is
  local time. Other strings are left to the implementation by the standard and give an
  Invalid Date here (so do years of six digits with a sign).
\<close>

fun take_digits :: "nat \<Rightarrow> string \<Rightarrow> (nat \<times> string) option" where
  "take_digits 0 s = Some (0, s)"
| "take_digits (Suc n) [] = None"
| "take_digits (Suc n) (c # cs) =
     (case digit_val c of
        None \<Rightarrow> None
      | Some v \<Rightarrow>
          (case take_digits n cs of
             None \<Rightarrow> None
           | Some (w, r) \<Rightarrow> Some (v * 10 ^ n + w, r)))"

definition parse_ymd :: "string \<Rightarrow> ((nat \<times> nat \<times> nat) \<times> string) option" where
  "parse_ymd s =
     (case take_digits 4 s of
        None \<Rightarrow> None
      | Some (y, r1) \<Rightarrow>
          (case r1 of
             c1 # r2 \<Rightarrow>
               (if c1 = CHR ''-'' then
                  (case take_digits 2 r2 of
                     None \<Rightarrow> None
                   | Some (m, r3) \<Rightarrow>
                       (case r3 of
                          c2 # r4 \<Rightarrow>
                            (if c2 = CHR ''-'' then
                               (case take_digits 2 r4 of
                                  None \<Rightarrow> None
                                | Some (d, r5) \<Rightarrow> Some ((y, m, d), r5))
                             else Some ((y, m, 1), r3))
                        | [] \<Rightarrow> Some ((y, m, 1), r3)))
                else Some ((y, 1, 1), r1))
           | [] \<Rightarrow> Some ((y, 1, 1), r1)))"

definition parse_fraction :: "string \<Rightarrow> (nat \<times> string) option" where
  "parse_fraction s =
     (case s of
        c # r \<Rightarrow> (if c = CHR ''.'' then take_digits 3 r else Some (0, s))
      | [] \<Rightarrow> Some (0, s))"

definition parse_seconds :: "string \<Rightarrow> ((nat \<times> nat) \<times> string) option" where
  "parse_seconds s =
     (case s of
        c # r \<Rightarrow>
          (if c = CHR '':'' then
             (case take_digits 2 r of
                None \<Rightarrow> None
              | Some (sec, r2) \<Rightarrow>
                  (case parse_fraction r2 of
                     None \<Rightarrow> None
                   | Some (ms, r3) \<Rightarrow> Some ((sec, ms), r3)))
           else Some ((0, 0), s))
      | [] \<Rightarrow> Some ((0, 0), s))"

definition parse_hm :: "string \<Rightarrow> ((nat \<times> nat) \<times> string) option" where
  "parse_hm s =
     (case take_digits 2 s of
        None \<Rightarrow> None
      | Some (h, r1) \<Rightarrow>
          (case r1 of
             c # r2 \<Rightarrow>
               (if c = CHR '':'' then
                  (case take_digits 2 r2 of
                     None \<Rightarrow> None
                   | Some (mi, r3) \<Rightarrow> Some ((h, mi), r3))
                else None)
           | [] \<Rightarrow> None))"

text \<open>The offset of the string from UTC in milliseconds; \<open>None\<close> inside means local time.\<close>

definition parse_offset :: "string \<Rightarrow> int option option" where
  "parse_offset s =
     (case s of
        [] \<Rightarrow> Some None
      | c # r \<Rightarrow>
          (if c = CHR ''Z'' then (if r = [] then Some (Some 0) else None)
           else if c = CHR ''+'' \<or> c = CHR ''-'' then
             (case parse_hm r of
                None \<Rightarrow> None
              | Some ((h, mi), r2) \<Rightarrow>
                  (if r2 = [] \<and> h \<le> 23 \<and> mi \<le> 59 then
                     Some (Some ((if c = CHR ''+'' then 1 else - 1)
                                  * (int h * msPerHour + int mi * msPerMinute)))
                   else None))
           else None))"

definition parse_time :: "string \<Rightarrow> ((nat \<times> nat \<times> nat \<times> nat) \<times> int option) option" where
  "parse_time s =
     (case parse_hm s of
        None \<Rightarrow> None
      | Some ((h, mi), r2) \<Rightarrow>
          (case parse_seconds r2 of
             None \<Rightarrow> None
           | Some ((sec, ms), r3) \<Rightarrow>
               (case parse_offset r3 of
                  None \<Rightarrow> None
                | Some zone \<Rightarrow>
                    (if 24 < h \<or> 59 < mi \<or> 59 < sec
                        \<or> (h = 24 \<and> (mi \<noteq> 0 \<or> sec \<noteq> 0 \<or> ms \<noteq> 0))
                     then None
                     else Some ((h, mi, sec, ms), zone)))))"

definition Date_parse :: "zone \<Rightarrow> string \<Rightarrow> num" where
  "Date_parse tz s =
     (case parse_ymd s of
        None \<Rightarrow> None
      | Some ((y, m, d), r) \<Rightarrow>
          (if m < 1 \<or> 12 < m \<or> d < 1 \<or> 31 < d then None
           else
             (case MakeDay (int y) (int m - 1) (int d) of
                None \<Rightarrow> None
              | Some day \<Rightarrow>
                  (case r of
                     [] \<Rightarrow> TimeClip (MakeDate day 0)
                   | c # r1 \<Rightarrow>
                       (if c \<noteq> CHR ''T'' then None
                        else
                          (case parse_time r1 of
                             None \<Rightarrow> None
                           | Some ((h, mi, sec, ms), zone) \<Rightarrow>
                               (let tv = MakeDate day
                                           (MakeTime (int h) (int mi) (int sec) (int ms))
                                in case zone of
                                     None \<Rightarrow> TimeClip (UTC tz tv)
                                   | Some ofs \<Rightarrow> TimeClip (tv - ofs))))))))"

section \<open>The functions of the module\<close>

text \<open>
  Each definition follows its JavaScript function line by line. A Date argument is its
  time value; \<^verbatim>\<open>new Date(date)\<close> on a Date copies it, so a function that starts with
  \<^verbatim>\<open>const a = new Date(date)\<close> works on \<open>a = date\<close>. Every function takes the zone
  \<open>tz\<close> first when it reads local time.
\<close>

subsection \<open>dateToTimestamp, getTime, getDayName\<close>

definition dateToTimestamp :: "zone \<Rightarrow> string \<Rightarrow> num" where
  "dateToTimestamp tz date = Date_parse tz date"

definition getTime :: "zone \<Rightarrow> num \<Rightarrow> string" where
  "getTime tz date =
     (let a = date;
          a1 = (if num_ge (getHours tz a) (Some 10) then num_to_string (getHours tz a)
                else ''0'' @ num_to_string (getHours tz a));
          a2 = (if num_ge (getMinutes tz a) (Some 10) then num_to_string (getMinutes tz a)
                else ''0'' @ num_to_string (getMinutes tz a));
          a3 = (if num_ge (getSeconds tz a) (Some 10) then num_to_string (getSeconds tz a)
                else ''0'' @ num_to_string (getSeconds tz a))
      in a1 @ '':'' @ a2 @ '':'' @ a3)"

definition getDayName :: "zone \<Rightarrow> string \<Rightarrow> string option" where
  "getDayName tz date =
     (let a = Date_parse tz date;
          mass = [1 \<mapsto> ''Monday'', 2 \<mapsto> ''Tuesday'', 3 \<mapsto> ''Wednesday'',
                  4 \<mapsto> ''Thursday'', 5 \<mapsto> ''Friday'', 6 \<mapsto> ''Saturday'',
                  0 \<mapsto> ''Sunday''];
          a2 = getDay tz a
      in case a2 of None \<Rightarrow> None | Some k \<Rightarrow> mass k)"

subsection \<open>The loops over days\<close>

text \<open>
  Four functions run \<^verbatim>\<open>for (let i = a; i <= b; i.setDate(i.getDate() + 1))\<close>. The
  loop variable is the Date object \<open>a\<close> itself, changed in place, so the model passes
  the Date's time value from one iteration to the next. \<open>loop_measure\<close> is the distance
  left to \<open>b\<close>; each iteration makes it smaller, since \<open>setDate\<close> with the next date
  moves the Date to a later time or invalidates it.
\<close>

definition next_day :: "zone \<Rightarrow> num \<Rightarrow> num" where
  "next_day tz i = setDate tz i (num_add (getDate tz i) (Some 1))"

definition loop_measure :: "num \<Rightarrow> num \<Rightarrow> nat" where
  "loop_measure i b = (case (i, b) of (Some t, Some u) \<Rightarrow> nat (u - t + 1) | _ \<Rightarrow> 0)"

lemma next_day_Some: "next_day tz (Some t) = Some t' \<Longrightarrow> t < t' \<and> t' \<le> maxTime"
  unfolding next_day_def by (rule setDate_next)

lemma loop_measure_decreases:
  assumes "num_le i b"
  shows "loop_measure (next_day tz i) b < loop_measure i b"
proof -
  from assms obtain t u where tu: "i = Some t" "b = Some u" "t \<le> u"
    by (auto simp: num_le_def split: option.splits)
  show ?thesis
  proof (cases "next_day tz i")
    case None
    then show ?thesis using tu by (simp add: loop_measure_def)
  next
    case (Some t')
    then have "t < t'" using tu next_day_Some by simp
    then show ?thesis using tu Some by (simp add: loop_measure_def)
  qed
qed

subsection \<open>getNextFriday\<close>

text \<open>
  \<^verbatim>\<open>return i\<close> inside the loop and \<^verbatim>\<open>return a\<close> after it return the same object:
  the Date the loop has been advancing.
\<close>

function getNextFriday_loop :: "zone \<Rightarrow> num \<Rightarrow> num \<Rightarrow> int \<Rightarrow> num" where
  "getNextFriday_loop tz b i n =
     (if num_le i b then
        (if num_eq (getDay tz i) (Some 5) \<and> n > 0 then i
         else getNextFriday_loop tz b (next_day tz i) (n + 1))
      else i)"
  by pat_completeness auto
termination
  by (relation "measure (\<lambda>(tz, b, i, n). loop_measure i b)")
     (simp_all add: loop_measure_decreases)

declare getNextFriday_loop.simps [simp del]

definition getNextFriday :: "zone \<Rightarrow> num \<Rightarrow> num" where
  "getNextFriday tz date =
     (let a = date;
          b = Date_ymd tz (getFullYear tz a) (getMonth tz a) (num_add (getDate tz a) (Some 7))
      in getNextFriday_loop tz b a 0)"

subsection \<open>getCountDaysInMonth, getCountDaysOnPeriod, isDateInPeriod\<close>

definition getCountDaysInMonth :: "zone \<Rightarrow> int \<Rightarrow> int \<Rightarrow> num" where
  "getCountDaysInMonth tz month year =
     (let a = Date_of_fields tz (Some year) (Some month) (Some 0) (Some 0) (Some 0) (Some 0)
      in getDate tz a)"

text \<open>
  JavaScript numbers are IEEE doubles and \<^verbatim>\<open>/\<close> rounds to the nearest double. The
  model divides exactly, in the rationals; where every quotient is a whole number or a
  dyadic fraction, as in the examples below, the two agree.
\<close>

definition getCountDaysOnPeriod :: "zone \<Rightarrow> string \<Rightarrow> string \<Rightarrow> rat option" where
  "getCountDaysOnPeriod tz dateStart dateEnd =
     (let a = Date_parse tz dateStart;
          b = Date_parse tz dateEnd;
          summ = map_option (\<lambda>x. rat_of_int x / 1000 / 60 / 60 / 24) (num_sub b a)
      in map_option (\<lambda>x. x + 1) summ)"

record DatePeriod =
  start :: string
  finish :: string

text \<open>
  The field \<^verbatim>\<open>end\<close> of a period is called \<open>finish\<close> here. The pieces of each string
  go to the Date constructor as they are: year, month, date.
\<close>

definition isDateInPeriod :: "zone \<Rightarrow> string \<Rightarrow> DatePeriod \<Rightarrow> bool" where
  "isDateInPeriod tz date period =
     (let arr1 = split_on CHR ''-'' date;
          arr2 = split_on CHR ''-'' (start period);
          arr3 = split_on CHR ''-'' (finish period);
          a = Date_of_fields tz (ToNumber (index arr1 0)) (ToNumber (index arr1 1))
                (ToNumber (index arr1 2)) (Some 0) (Some 0) (Some 0);
          b = Date_of_fields tz (ToNumber (index arr2 0)) (ToNumber (index arr2 1))
                (ToNumber (index arr2 2)) (Some 0) (Some 0) (Some 0);
          c = Date_of_fields tz (ToNumber (index arr3 0)) (ToNumber (index arr3 1))
                (ToNumber (index arr3 2)) (Some 0) (Some 0) (Some 0)
      in num_ge a b \<and> num_le a c)"

subsection \<open>formatDate\<close>

text \<open>
  The hour is printed by one of three assignments to \<^verbatim>\<open>b\<close>; \<open>formatDate_branch\<close>
  says which one runs.
\<close>

datatype hour_branch = PM_unadjusted | PM_minus_12 | AM_unadjusted

definition formatDate_branch :: "num \<Rightarrow> hour_branch" where
  "formatDate_branch a =
     (let a2 = (if num_ge (getUTCHours a) (Some 12) then ''PM'' else ''AM'')
      in if a2 = ''PM'' then
           (if num_eq (getUTCHours a) (Some 12)
               \<and> num_eq (getUTCMinutes a) (Some 59)
               \<and> num_eq (getUTCMinutes a) (Some 59)
            then PM_unadjusted
            else PM_minus_12)
         else AM_unadjusted)"

definition formatDate :: "zone \<Rightarrow> string \<Rightarrow> string" where
  "formatDate tz date =
     (let a = Date_parse tz date;
          a2 = (if num_ge (getUTCHours a) (Some 12) then ''PM'' else ''AM'');
          a3 = (if num_ge (getUTCMinutes a) (Some 9) then num_to_string (getUTCMinutes a)
                else ''0'' @ num_to_string (getUTCMinutes a));
          a4 = (if num_ge (getUTCSeconds a) (Some 9) then num_to_string (getUTCSeconds a)
                else ''0'' @ num_to_string (getUTCSeconds a));
          b = (case formatDate_branch a of
                 PM_unadjusted \<Rightarrow> num_to_string (getUTCHours a) @ '':'' @ a3 @ '':'' @ a4
               | PM_minus_12 \<Rightarrow>
                   num_to_string (num_sub (getUTCHours a) (Some 12)) @ '':'' @ a3 @ '':'' @ a4
               | AM_unadjusted \<Rightarrow> num_to_string (getUTCHours a) @ '':'' @ a3 @ '':'' @ a4)
      in num_to_string (num_add (getUTCMonth a) (Some 1)) @ ''/''
         @ num_to_string (getUTCDate a) @ ''/''
         @ num_to_string (getUTCFullYear a) @ '', '' @ b @ '' '' @ a2)"

subsection \<open>getCountWeekendsInMonth, getWeekNumberByDate\<close>

function getCountWeekendsInMonth_loop :: "zone \<Rightarrow> num \<Rightarrow> num \<Rightarrow> int \<Rightarrow> int" where
  "getCountWeekendsInMonth_loop tz b i summ =
     (if num_le i b then
        getCountWeekendsInMonth_loop tz b (next_day tz i)
          (if num_eq (getDay tz i) (Some 0) \<or> num_eq (getDay tz i) (Some 6)
           then summ + 1 else summ)
      else summ)"
  by pat_completeness auto
termination
  by (relation "measure (\<lambda>(tz, b, i, summ). loop_measure i b)")
     (simp_all add: loop_measure_decreases)

declare getCountWeekendsInMonth_loop.simps [simp del]

definition getCountWeekendsInMonth :: "zone \<Rightarrow> int \<Rightarrow> int \<Rightarrow> int" where
  "getCountWeekendsInMonth tz month year =
     (let a = Date_ymd tz (Some year) (Some (month - 1)) (Some 1);
          b = Date_ymd tz (Some year) (Some month) (Some 0)
      in getCountWeekendsInMonth_loop tz b a 0)"

definition getWeekNumberByDate :: "zone \<Rightarrow> num \<Rightarrow> num" where
  "getWeekNumberByDate tz date =
     (let a = date;
          s = getFullYear tz a;
          b = Date_ymd tz s (Some 0) (Some 0)
      in map_option (\<lambda>x. \<lceil>rat_of_int x / 1000 / 60 / 60 / 24 / 7\<rceil>) (num_sub a b))"

subsection \<open>getNextFridayThe13th, getQuarter\<close>

text \<open>
  The function returns a new Date, or \<^verbatim>\<open>undefined\<close> (the variable \<^verbatim>\<open>c\<close> is never
  assigned) when the loop ends without a return.
\<close>

datatype date_or_undefined = Undefined | DateObject num

function getNextFridayThe13th_loop :: "zone \<Rightarrow> num \<Rightarrow> num \<Rightarrow> date_or_undefined" where
  "getNextFridayThe13th_loop tz b i =
     (if num_le i b then
        (let a4 = getDay tz i; a5 = getDate tz i
         in if num_eq a4 (Some 5) \<and> num_eq a5 (Some 13)
            then DateObject (Date_ymd tz (getFullYear tz i) (getMonth tz i) a5)
            else getNextFridayThe13th_loop tz b (next_day tz i))
      else Undefined)"
  by pat_completeness auto
termination
  by (relation "measure (\<lambda>(tz, b, i). loop_measure i b)")
     (simp_all add: loop_measure_decreases)

declare getNextFridayThe13th_loop.simps [simp del]

definition getNextFridayThe13th :: "zone \<Rightarrow> num \<Rightarrow> date_or_undefined" where
  "getNextFridayThe13th tz date =
     (let a = date;
          b = Date_ymd tz (num_add (getFullYear tz a) (Some 1)) (Some 0) (Some 0)
      in getNextFridayThe13th_loop tz b a)"

definition getQuarter :: "zone \<Rightarrow> num \<Rightarrow> int" where
  "getQuarter tz date =
     (let a = date; b = getMonth tz a
      in if num_ge b (Some 0) \<and> num_le b (Some 2) then 1
         else if num_ge b (Some 3) \<and> num_le b (Some 5) then 2
         else if num_ge b (Some 6) \<and> num_le b (Some 8) then 3
         else 4)"

subsection \<open>getWorkSchedule\<close>

text \<open>
  The body of the loop: \<open>entry\<close> is the string it may push, and the result is the new
  \<^verbatim>\<open>n2\<close> with the new \<^verbatim>\<open>mass\<close>.
\<close>

definition getWorkSchedule_entry :: "zone \<Rightarrow> num \<Rightarrow> string" where
  "getWorkSchedule_entry tz i =
     (let day = (if num_le (getDate tz i) (Some 9) then ''0'' @ num_to_string (getDate tz i)
                 else num_to_string (getDate tz i));
          month = (if num_le (num_add (getMonth tz i) (Some 1)) (Some 9)
                   then ''0'' @ num_to_string (num_add (getMonth tz i) (Some 1))
                   else num_to_string (num_add (getMonth tz i) (Some 1)))
      in day @ ''-'' @ month @ ''-'' @ num_to_string (getFullYear tz i))"

definition getWorkSchedule_body ::
  "int \<Rightarrow> int \<Rightarrow> string \<Rightarrow> int \<times> string list \<Rightarrow> int \<times> string list" where
  "getWorkSchedule_body countWorkDays countOffDays entry st =
     (let n2 = fst st; mass = snd st
      in if n2 \<le> countWorkDays then (n2 + 1, mass @ [entry])
         else if n2 > countWorkDays + countOffDays then (2, mass @ [entry])
         else if n2 > countWorkDays \<and> n2 \<le> countWorkDays + countOffDays then (n2 + 1, mass)
         else (n2, mass))"

function getWorkSchedule_loop ::
  "zone \<Rightarrow> int \<Rightarrow> int \<Rightarrow> num \<Rightarrow> num \<Rightarrow> int \<times> string list \<Rightarrow> string list" where
  "getWorkSchedule_loop tz countWorkDays countOffDays bb i st =
     (if num_le i bb then
        getWorkSchedule_loop tz countWorkDays countOffDays bb (next_day tz i)
          (getWorkSchedule_body countWorkDays countOffDays (getWorkSchedule_entry tz i) st)
      else snd st)"
  by pat_completeness auto
termination
  by (relation "measure (\<lambda>(tz, w, off, bb, i, st). loop_measure i bb)")
     (simp_all add: loop_measure_decreases)

declare getWorkSchedule_loop.simps [simp del]

definition getWorkSchedule :: "zone \<Rightarrow> DatePeriod \<Rightarrow> int \<Rightarrow> int \<Rightarrow> string list" where
  "getWorkSchedule tz period countWorkDays countOffDays =
     (let a = split_on CHR ''-'' (start period);
          b = split_on CHR ''-'' (finish period);
          aa = Date_ymd tz (ToNumber (index a 2)) (num_sub (ToNumber (index a 1)) (Some 1))
                 (ToNumber (index a 0));
          bb = Date_ymd tz (ToNumber (index b 2)) (num_sub (ToNumber (index b 1)) (Some 1))
                 (ToNumber (index b 0))
      in getWorkSchedule_loop tz countWorkDays countOffDays bb aa (1, []))"

subsection \<open>isLeapYear\<close>

definition isLeapYear :: "zone \<Rightarrow> num \<Rightarrow> bool" where
  "isLeapYear tz date =
     (let a = date in num_eq (num_rem (getFullYear tz a) (Some 4)) (Some 0))"

section \<open>One day after another\<close>

text \<open>
  Facts shared by the loops. While the offset of the zone stays the same, and away from
  the two ends of the range of time values, \<open>next_day\<close> adds exactly one day and the
  weekday advances by one. \<open>offset_constant tz tza lo hi\<close> says that the offset of the
  zone \<open>tz\<close> is \<open>tza\<close> for every time value from \<open>lo\<close> to \<open>hi\<close>, read as UTC or as local
  time.
\<close>

definition offset_constant :: "zone \<Rightarrow> int \<Rightarrow> int \<Rightarrow> int \<Rightarrow> bool" where
  "offset_constant tz tza lo hi \<longleftrightarrow>
     (\<forall>u isUTC. lo \<le> u \<and> u \<le> hi \<longrightarrow> LocalTZA tz u isUTC = tza)"

lemma LocalTZA_constant:
  "offset_constant tz tza lo hi \<Longrightarrow> lo \<le> u \<Longrightarrow> u \<le> hi \<Longrightarrow> LocalTZA tz u isUTC = tza"
  by (simp add: offset_constant_def)

lemma offset_constant_fixed: "offset_constant (fixed_offset tza) tza lo hi"
  by (simp add: offset_constant_def)


lemma TimeWithinDay_add_days: "TimeWithinDay (t + j * msPerDay) = TimeWithinDay t"
  by (simp add: TimeWithinDay_def msPerDay_def)


lemma Day_bounds: "msPerDay * Day t \<le> t" "t < msPerDay * Day t + msPerDay"
  using div_bounds[of msPerDay t] by (simp_all add: Day_def msPerDay_def)

lemma DayFromYear_linear:
  "146097 * y - 287811890 < 400 * DayFromYear y" "400 * DayFromYear y < 146097 * y - 287810290"
  using DayFromYear_lower[of y] DayFromYear_upper[of y] by (simp_all add: algebra_simps)

text \<open>The years of the time values, with a day to spare on either side.\<close>

lemma YearFromTime_range:
  assumes "- maxTime - msPerDay \<le> t" "t \<le> maxTime + msPerDay"
  shows "- 271821 \<le> YearFromTime t \<and> YearFromTime t \<le> 275760"
proof -
  define Y where "Y = YearFromTime t"
  have d: "- 100000001 \<le> Day t" "Day t \<le> 100000001"
    using Day_bounds[of t] assms by (simp_all add: msPerDay_def maxTime_def)
  have "DayFromYear Y \<le> Day t" "Day t < DayFromYear (Y + 1)"
    using YearFromTime_bounds[of t] by (simp_all add: Y_def)
  then have "146097 * Y - 287811890 < 400 * 100000001"
    "400 * (- 100000001) < 146097 * (Y + 1) - 287810290"
    using DayFromYear_linear(1)[of Y] DayFromYear_linear(2)[of "Y + 1"] d by linarith+
  then show ?thesis unfolding Y_def[symmetric] by simp
qed

lemma getDay_zone: "getDay tz (Some u) = Some (WeekDay (u + LocalTZA tz u True))"
  by (simp add: getDay_def LocalTime_def)

lemma next_day_zone:
  assumes "- maxTime \<le> u" "u \<le> maxTime"
    and "\<bar>LocalTZA tz u True\<bar> \<le> msPerDay"
    and "\<bar>u + LocalTZA tz u True + msPerDay
            - LocalTZA tz (u + LocalTZA tz u True + msPerDay) False\<bar> \<le> maxTime"
  shows "next_day tz (Some u)
         = Some (u + LocalTZA tz u True + msPerDay
                   - LocalTZA tz (u + LocalTZA tz u True + msPerDay) False)"
proof -
  define L where "L = u + LocalTZA tz u True"
  have y: "- 271821 \<le> YearFromTime L \<and> YearFromTime L \<le> 275760"
    by (rule YearFromTime_range) (use assms in \<open>simp_all add: L_def msPerDay_def\<close>)
  have "(Day L + 1) * msPerDay + TimeWithinDay L = L + msPerDay"
    using Day_TimeWithinDay[of L] by (simp add: algebra_simps)
  then show ?thesis
    using y assms(4)
    by (simp add: next_day_def setDate_def getDate_def num_add_def LocalTime_def
        L_def[symmetric] MakeDay_of_time Let_def UTC_def MakeDate_def TimeClip_def)
qed

lemma Date_ymd_zone:
  "Date_ymd tz (Some y) (Some m) (Some d) =
     (case MakeDay (MakeFullYear y) m d of
        None \<Rightarrow> None
      | Some day \<Rightarrow> TimeClip (day * msPerDay - LocalTZA tz (day * msPerDay) False))"
  by (simp add: Date_ymd_def Date_of_fields_def MakeTime_def MakeDate_def UTC_def
      split: option.splits)


lemma next_day_constant:
  assumes c: "offset_constant tz tza lo hi" and tz: "\<bar>tza\<bar> \<le> msPerDay"
    and w: "lo \<le> u" "u \<le> hi" "lo \<le> u + tza + msPerDay" "u + tza + msPerDay \<le> hi"
    and r: "- maxTime \<le> u" "u + msPerDay \<le> maxTime"
  shows "next_day tz (Some u) = Some (u + msPerDay)"
proof -
  have a: "LocalTZA tz u True = tza"
    by (rule LocalTZA_constant[OF c w(1,2)])
  have b: "LocalTZA tz (u + tza + msPerDay) False = tza"
    by (rule LocalTZA_constant[OF c w(3,4)])
  have "\<bar>u + tza + msPerDay - tza\<bar> \<le> maxTime" "u \<le> maxTime"
    using r by (simp_all add: msPerDay_def maxTime_def)
  then have "next_day tz (Some u)
      = Some (u + LocalTZA tz u True + msPerDay
                - LocalTZA tz (u + LocalTZA tz u True + msPerDay) False)"
    using r(1) tz by (intro next_day_zone) (simp_all add: a b)
  then show ?thesis by (simp add: a b)
qed


lemma next_day_ok:
  assumes "\<bar>tza\<bar> \<le> msPerDay" "- maxTime \<le> u" "u + msPerDay \<le> maxTime"
  shows "next_day (fixed_offset tza) (Some u) = Some (u + msPerDay)"
proof -
  define lo where "lo = min u (u + tza + msPerDay)"
  define hi where "hi = max u (u + tza + msPerDay)"
  show ?thesis
    using assms
    by (intro next_day_constant[OF offset_constant_fixed[of tza lo hi]])
       (simp_all add: lo_def hi_def)
qed

lemma getDay_Some: "getDay (fixed_offset tza) (Some u) = Some (WeekDay (u + tza))"
  by (simp add: getDay_zone)

lemma Date_ymd_Some:
  "Date_ymd (fixed_offset tza) (Some y) (Some m) (Some d) =
     (case MakeDay (MakeFullYear y) m d of
        None \<Rightarrow> None
      | Some day \<Rightarrow> TimeClip (day * msPerDay - tza))"
  by (simp add: Date_ymd_zone split: option.splits)

lemma MakeDay_eq:
  "MakeDay y m d =
     (if - 1000000 \<le> y \<and> y \<le> 1000000 \<and> - 10000000 \<le> m \<and> m \<le> 10000000
      then Some (DayFromYear (y + m div 12) + monthStart (y + m div 12) (m mod 12) + d - 1)
      else None)"
  by (simp add: MakeDay_def Let_def)

lemma monthStart_range: "0 \<le> monthStart y m \<and> monthStart y m \<le> 335"
  by (simp add: monthStart_def Let_def)


lemma DayFromYear_range:
  assumes "- 271820 \<le> y" "y \<le> 275760"
  shows "- 99999746 \<le> DayFromYear y \<and> DayFromYear y \<le> 99999746"
proof -
  have "146097 * y - 287811090 - 800 < 400 * DayFromYear y"
    "400 * DayFromYear y < 146097 * y - 287811090 + 800"
    using DayFromYear_lower[of y] DayFromYear_upper[of y] by (simp_all add: algebra_simps)
  then show ?thesis using assms by linarith
qed

lemma DayFromYear_range':
  assumes "y \<le> 275759"
  shows "DayFromYear y \<le> 99999381"
proof -
  have "400 * DayFromYear y < 146097 * y - 287811090 + 800"
    using DayFromYear_upper[of y] by (simp add: algebra_simps)
  then show ?thesis using assms by linarith
qed


section \<open>Evaluating the model\<close>

text \<open>
  Equations that let the simplifier run the parser and the accessors on concrete input.
\<close>

lemma take_digits_2:
  "take_digits 2 (a # b # r) =
     (case digit_val a of None \<Rightarrow> None
      | Some x \<Rightarrow> (case digit_val b of None \<Rightarrow> None | Some y \<Rightarrow> Some (x * 10 + y, r)))"
  by (simp add: numeral_2_eq_2 split: option.splits)

lemma take_digits_3:
  "take_digits 3 (a # b # c # r) =
     (case digit_val a of None \<Rightarrow> None
      | Some x \<Rightarrow> (case digit_val b of None \<Rightarrow> None
         | Some y \<Rightarrow> (case digit_val c of None \<Rightarrow> None
             | Some z \<Rightarrow> Some (x * 100 + y * 10 + z, r))))"
  by (simp add: numeral_3_eq_3 split: option.splits)

lemma take_digits_4:
  "take_digits 4 (a # b # c # d # r) =
     (case digit_val a of None \<Rightarrow> None
      | Some x \<Rightarrow> (case digit_val b of None \<Rightarrow> None
         | Some y \<Rightarrow> (case digit_val c of None \<Rightarrow> None
             | Some z \<Rightarrow> (case digit_val d of None \<Rightarrow> None
                 | Some w \<Rightarrow> Some (x * 1000 + y * 100 + z * 10 + w, r)))))"
proof -
  have e: "(4::nat) = Suc (Suc (Suc (Suc 0)))" by simp
  have p: "10 ^ Suc (Suc (Suc 0)) = (1000::nat)" "10 ^ Suc (Suc 0) = (100::nat)" by simp_all
  show ?thesis
    unfolding e take_digits.simps p by (simp split: option.splits)
qed

text \<open>A date and time in UTC, written in full, parses to the time value of its fields.\<close>

lemma Date_parse_utc:
  assumes "parse_ymd s = Some ((y, m, d), CHR ''T'' # r)"
    and "parse_time r = Some ((h, mi, sec, ms), Some 0)"
    and "1 \<le> m" "m \<le> 12" "1 \<le> d" "d \<le> 31"
    and "MakeDay (int y) (int m - 1) (int d) = Some day"
  shows "Date_parse tz s = TimeClip (day * msPerDay + MakeTime (int h) (int mi) (int sec) (int ms))"
  using assms by (simp add: Date_parse_def MakeDate_def)

lemma digit_char_eval:
  "digit_char 0 = CHR ''0''" "digit_char (Suc 0) = CHR ''1''" "digit_char 1 = CHR ''1''"
  "digit_char 2 = CHR ''2''" "digit_char 3 = CHR ''3''" "digit_char 4 = CHR ''4''"
  "digit_char 5 = CHR ''5''" "digit_char 6 = CHR ''6''" "digit_char 7 = CHR ''7''"
  "digit_char 8 = CHR ''8''" "digit_char 9 = CHR ''9''"
  by (simp_all add: digit_char_def)

lemma DayFromYear_eval:
  "DayFromYear 1900 = - 25567" "DayFromYear 2024 = 19723" "DayFromYear 2025 = 20089"
  "DayFromYear 275760 = 99999744" "DayFromYear 999 = - 354650"
  by (simp_all add: DayFromYear_def)

lemma DaysInYear_eval:
  "DaysInYear 1900 = 365" "DaysInYear 2024 = 366" "DaysInYear 2025 = 365"
  "DaysInYear 275760 = 366" "DaysInYear 999 = 365"
  by (simp_all add: DaysInYear_def)

lemma MakeDay_2024: "0 \<le> m \<Longrightarrow> m \<le> 11 \<Longrightarrow> MakeDay 2024 m d = Some (19723 + monthStart 2024 m + d - 1)"
  by (simp add: MakeDay_eq DayFromYear_eval)

lemma parse_time_utc_ms:
  "parse_time [h1, h2, CHR '':'', m1, m2, CHR '':'', s1, s2, CHR ''.'', f1, f2, f3, CHR ''Z''] =
     (case take_digits 2 [h1, h2] of None \<Rightarrow> None | Some (h, r) \<Rightarrow>
      (case take_digits 2 [m1, m2] of None \<Rightarrow> None | Some (mi, r) \<Rightarrow>
       (case take_digits 2 [s1, s2] of None \<Rightarrow> None | Some (sec, r) \<Rightarrow>
        (case take_digits 3 [f1, f2, f3] of None \<Rightarrow> None | Some (ms, r) \<Rightarrow>
           (if 24 < h \<or> 59 < mi \<or> 59 < sec \<or> (h = 24 \<and> (mi \<noteq> 0 \<or> sec \<noteq> 0 \<or> ms \<noteq> 0))
            then None else Some ((h, mi, sec, ms), Some 0))))))"
  by (simp add: parse_time_def parse_hm_def parse_seconds_def parse_fraction_def
      parse_offset_def take_digits_2 take_digits_3 split: option.splits)

lemma parse_ymd_full:
  "parse_ymd (y1 # y2 # y3 # y4 # CHR ''-'' # m1 # m2 # CHR ''-'' # d1 # d2 # r) =
     (case take_digits 4 [y1, y2, y3, y4] of None \<Rightarrow> None | Some (y, r1) \<Rightarrow>
      (case take_digits 2 [m1, m2] of None \<Rightarrow> None | Some (m, r1) \<Rightarrow>
       (case take_digits 2 [d1, d2] of None \<Rightarrow> None | Some (d, r1) \<Rightarrow> Some ((y, m, d), r))))"
  by (simp add: parse_ymd_def take_digits_2 take_digits_4 split: option.splits)

lemma Date_parse_2024_02:
  "Date_parse tz ''2024-02-01T12:59:00.000Z'' = Some 1706792340000"
  "Date_parse tz ''2024-02-01T00:09:09.000Z'' = Some 1706746149000"
  "Date_parse tz ''2024-02-01T12:00:00.000Z'' = Some 1706788800000"
  "Date_parse tz ''2024-02-01T00:00:00.000Z'' = Some 1706745600000"
  "Date_parse tz ''2024-02-02T12:00:00.000Z'' = Some 1706875200000"
  by (simp_all add: Date_parse_def parse_ymd_full parse_time_utc_ms take_digits_2 take_digits_3
      take_digits_4 digit_val_def MakeDay_2024 monthStart_def DaysInYear_eval MakeDate_def
      MakeTime_def TimeClip_def msPerDay_def msPerHour_def msPerMinute_def msPerSecond_def
      maxTime_def)

lemma time_fields_eval:
  "HourFromTime 1706792340000 = 12" "MinFromTime 1706792340000 = 59" "SecFromTime 1706792340000 = 0"
  "HourFromTime 1706746149000 = 0" "MinFromTime 1706746149000 = 9" "SecFromTime 1706746149000 = 9"
  "HourFromTime 1706788800000 = 12" "MinFromTime 1706788800000 = 0" "SecFromTime 1706788800000 = 0"
  by (simp_all add: HourFromTime_def MinFromTime_def SecFromTime_def msPerHour_def
      msPerMinute_def msPerSecond_def)

lemma date_fields_2024_02_01:
  assumes "Day t = 19754"
  shows "YearFromTime t = 2024 \<and> MonthFromTime t = 1 \<and> DateFromTime t = 1"
  by (rule fields_of_day)
     (simp_all add: assms DaysInMonth_def DaysInYear_eval DayFromYear_eval monthStart_def)

lemma date_fields_eval:
  "YearFromTime 1706792340000 = 2024" "MonthFromTime 1706792340000 = 1" "DateFromTime 1706792340000 = 1"
  "YearFromTime 1706746149000 = 2024" "MonthFromTime 1706746149000 = 1" "DateFromTime 1706746149000 = 1"
  "YearFromTime 1706788800000 = 2024" "MonthFromTime 1706788800000 = 1" "DateFromTime 1706788800000 = 1"
  using date_fields_2024_02_01[of 1706792340000] date_fields_2024_02_01[of 1706746149000]
    date_fields_2024_02_01[of 1706788800000]
  by (simp_all add: Day_def msPerDay_def)

lemma digits_one: "n < 10 \<Longrightarrow> digits n = [digit_char n]"
  by (subst digits.simps) simp

lemma digits_two: "10 \<le> n \<Longrightarrow> n < 100 \<Longrightarrow> digits n = [digit_char (n div 10), digit_char (n mod 10)]"
  by (subst digits.simps) (simp add: digits_one)

lemma digits_four:
  assumes "1000 \<le> n" "n < 10000"
  shows "digits n = [digit_char (n div 1000), digit_char (n div 100 mod 10),
      digit_char (n div 10 mod 10), digit_char (n mod 10)]"
proof -
  have e: "n div 10 div 10 = n div 100" "n div 100 div 10 = n div 1000"
    by (simp_all add: div_mult2_eq[symmetric])
  have r: "\<not> n < 10" "\<not> n div 10 < 10" "10 \<le> n div 100" "n div 100 < 100"
    using assms by simp_all
  have a: "digits n = digits (n div 10) @ [digit_char (n mod 10)]"
    using r(1) by (subst digits.simps) simp
  have b: "digits (n div 10) = digits (n div 100) @ [digit_char (n div 10 mod 10)]"
    using r(2) by (subst digits.simps) (simp add: e)
  have c: "digits (n div 100) = [digit_char (n div 1000), digit_char (n div 100 mod 10)]"
    using digits_two[OF r(3,4)] by (simp add: e)
  show ?thesis by (simp add: a b c)
qed

section \<open>Three zones of the time zone database\<close>

text \<open>
  Each definition gives a zone around one or two of its changes of offset, as the time
  zone database records them; the offset before the first and after the last of them is
  taken for all other times, which the results below do not read.

  Asia/Singapore in 1942: seven and a half hours ahead of UTC until 16 February 1942,
  00:00 local time (15 February, 16:30 UTC), nine hours ahead from then on. The local
  times from 00:00 to 01:30 of that day are skipped.
\<close>

lift_definition Asia_Singapore_1942 :: zone is
  "\<lambda>t isUTC.
     if isUTC then (if t < - 879665400000 then 27000000 else 32400000)
     else (if t < - 879633000000 then 27000000 else 32400000)"
  by (simp add: msPerDay_def)

text \<open>
  America/Sao_Paulo in 2018: three hours behind UTC until 4 November 2018, 00:00 local
  time (03:00 UTC), two hours behind from then on. The local times from 00:00 to 01:00
  of that day are skipped.
\<close>

lift_definition America_Sao_Paulo_2018 :: zone is
  "\<lambda>t isUTC.
     if isUTC then (if t < 1541300400000 then - 10800000 else - 7200000)
     else (if t < 1541293200000 then - 10800000 else - 7200000)"
  by (simp add: msPerDay_def)

text \<open>
  America/New_York in 2024: five hours behind UTC until 10 March 2024, 02:00 local time
  (07:00 UTC), four hours behind until 3 November 2024, 02:00 local time (06:00 UTC),
  five hours behind from then on. The local times from 02:00 to 03:00 of 10 March are
  skipped, and those from 01:00 to 02:00 of 3 November occur twice.
\<close>

lift_definition America_New_York_2024 :: zone is
  "\<lambda>t isUTC.
     if isUTC then
       (if t < 1710054000000 then - 18000000
        else if t < 1730613600000 then - 14400000 else - 18000000)
     else
       (if t < 1710039600000 then - 18000000
        else if t < 1730599200000 then - 14400000 else - 18000000)"
  by (simp add: msPerDay_def)

lemma LocalTZA_Asia_Singapore_1942:
  "LocalTZA Asia_Singapore_1942 t True = (if t < - 879665400000 then 27000000 else 32400000)"
  "LocalTZA Asia_Singapore_1942 t False = (if t < - 879633000000 then 27000000 else 32400000)"
  by (simp_all add: LocalTZA.rep_eq Asia_Singapore_1942.rep_eq)

lemma LocalTZA_America_Sao_Paulo_2018:
  "LocalTZA America_Sao_Paulo_2018 t True
     = (if t < 1541300400000 then - 10800000 else - 7200000)"
  "LocalTZA America_Sao_Paulo_2018 t False
     = (if t < 1541293200000 then - 10800000 else - 7200000)"
  by (simp_all add: LocalTZA.rep_eq America_Sao_Paulo_2018.rep_eq)

lemma LocalTZA_America_New_York_2024:
  "LocalTZA America_New_York_2024 t True
     = (if t < 1710054000000 then - 18000000
        else if t < 1730613600000 then - 14400000 else - 18000000)"
  "LocalTZA America_New_York_2024 t False
     = (if t < 1710039600000 then - 18000000
        else if t < 1730599200000 then - 14400000 else - 18000000)"
  by (simp_all add: LocalTZA.rep_eq America_New_York_2024.rep_eq)

section \<open>getCountWeekendsInMonth: between 8 and 10 weekend days\<close>














text \<open>
  When the offset changes during the month the count can be short. In Singapore the
  clocks went from 00:00 to 01:30 on 16 February 1942; from that day on the Date of the
  loop is at 01:30, local time, on 28 February it is after the bound \<open>b\<close>, which is at
  00:00, and Saturday 28 February is not counted: 7, for a month with four Saturdays
  and four Sundays.
\<close>

lemma getCountWeekendsInMonth_Asia_Singapore_1942:
  "getCountWeekendsInMonth Asia_Singapore_1942 2 1942 = 7"
proof -
  have e: "DayFromYear 1942 = - 10227" "DaysInYear 1942 = 365"
    by (simp_all add: DayFromYear_def DaysInYear_def)
  have a: "Date_ymd Asia_Singapore_1942 (Some 1942) (Some (2 - 1)) (Some 1) = Some (- 880961400000)"
    by (simp add: Date_ymd_zone MakeFullYear_def MakeDay_eq e monthStart_def
        LocalTZA_Asia_Singapore_1942 TimeClip_def msPerDay_def maxTime_def)
  have b: "Date_ymd Asia_Singapore_1942 (Some 1942) (Some 2) (Some 0) = Some (- 878634000000)"
    by (simp add: Date_ymd_zone MakeFullYear_def MakeDay_eq e monthStart_def
        LocalTZA_Asia_Singapore_1942 TimeClip_def msPerDay_def maxTime_def)
  have n: "next_day Asia_Singapore_1942 (Some u)
      = Some (u + LocalTZA Asia_Singapore_1942 u True + msPerDay
                - LocalTZA Asia_Singapore_1942
                    (u + LocalTZA Asia_Singapore_1942 u True + msPerDay) False)"
    if "- 881000000000 \<le> u" "u \<le> - 878000000000" for u
    using that
    by (intro next_day_zone)
       (auto simp: LocalTZA_Asia_Singapore_1942 msPerDay_def maxTime_def)
  show ?thesis
    unfolding getCountWeekendsInMonth_def Let_def a b
    by (simp add: getCountWeekendsInMonth_loop.simps n getDay_zone LocalTZA_Asia_Singapore_1942
        num_le_def num_eq_def WeekDay_def Day_def msPerDay_def)
qed

section \<open>getNextFriday: the next Friday\<close>









text \<open>
  When the offset changes during the week the result is not a whole number of days
  after the argument. In New York the clocks went from 02:00 to 03:00 on 10 March 2024
  and from 02:00 back to 01:00 on 3 November 2024. From Saturday 9 March, 12:00 local
  time, the result is Friday 15 March, 12:00 local time, six days less an hour later;
  from Friday 1 November, 12:00 local time, it is Friday 8 November, 12:00 local time,
  seven days and an hour later.
\<close>

lemma getNextFriday_America_New_York_2024:
  "getNextFriday America_New_York_2024 (Some 1710003600000) = Some 1710518400000"
  "getNextFriday America_New_York_2024 (Some 1730476800000) = Some 1731085200000"
proof -
  have e: "DayFromYear 2024 = 19723" "DaysInYear 2024 = 366"
    by (simp_all add: DayFromYear_def DaysInYear_def)
  have f: "YearFromTime 1709985600000 = 2024 \<and> MonthFromTime 1709985600000 = 2
      \<and> DateFromTime 1709985600000 = 9"
    by (rule fields_of_day)
       (simp_all add: DaysInMonth_def e monthStart_def Day_def msPerDay_def)
  have b: "Date_ymd America_New_York_2024 (getFullYear America_New_York_2024 (Some 1710003600000))
      (getMonth America_New_York_2024 (Some 1710003600000))
      (num_add (getDate America_New_York_2024 (Some 1710003600000)) (Some 7))
      = Some 1710561600000"
    by (simp add: getFullYear_def getMonth_def getDate_def LocalTime_def num_add_def f
        LocalTZA_America_New_York_2024 Date_ymd_zone MakeFullYear_def MakeDay_eq e
        monthStart_def TimeClip_def msPerDay_def maxTime_def)
  have g: "YearFromTime 1730462400000 = 2024 \<and> MonthFromTime 1730462400000 = 10
      \<and> DateFromTime 1730462400000 = 1"
    by (rule fields_of_day)
       (simp_all add: DaysInMonth_def e monthStart_def Day_def msPerDay_def)
  have b': "Date_ymd America_New_York_2024 (getFullYear America_New_York_2024 (Some 1730476800000))
      (getMonth America_New_York_2024 (Some 1730476800000))
      (num_add (getDate America_New_York_2024 (Some 1730476800000)) (Some 7))
      = Some 1731042000000"
    by (simp add: getFullYear_def getMonth_def getDate_def LocalTime_def num_add_def g
        LocalTZA_America_New_York_2024 Date_ymd_zone MakeFullYear_def MakeDay_eq e
        monthStart_def TimeClip_def msPerDay_def maxTime_def)
  have n: "next_day America_New_York_2024 (Some u)
      = Some (u + LocalTZA America_New_York_2024 u True + msPerDay
                - LocalTZA America_New_York_2024
                    (u + LocalTZA America_New_York_2024 u True + msPerDay) False)"
    if "1710000000000 \<le> u" "u \<le> 1732000000000" for u
    using that
    by (intro next_day_zone)
       (auto simp: LocalTZA_America_New_York_2024 msPerDay_def maxTime_def)
  show "getNextFriday America_New_York_2024 (Some 1710003600000) = Some 1710518400000"
    unfolding getNextFriday_def Let_def b
    by (simp add: getNextFriday_loop.simps n getDay_zone LocalTZA_America_New_York_2024
        num_le_def num_eq_def WeekDay_def Day_def msPerDay_def)
  show "getNextFriday America_New_York_2024 (Some 1730476800000) = Some 1731085200000"
    unfolding getNextFriday_def Let_def b'
    by (simp add: getNextFriday_loop.simps n getDay_zone LocalTZA_America_New_York_2024
        num_le_def num_eq_def WeekDay_def Day_def msPerDay_def)
qed

section \<open>getWorkSchedule: the days of the cycle\<close>

text \<open>
  The format \<^verbatim>\<open>DD-MM-YYYY\<close> of a date given as year, month (1 to 12) and day of the
  month: two digits, two digits, four digits.
\<close>

definition two_digits :: "int \<Rightarrow> string" where
  "two_digits n = [digit_char (nat n div 10), digit_char (nat n mod 10)]"

definition four_digits :: "int \<Rightarrow> string" where
  "four_digits n =
     [digit_char (nat n div 1000), digit_char (nat n div 100 mod 10),
      digit_char (nat n div 10 mod 10), digit_char (nat n mod 10)]"

definition DD_MM_YYYY :: "int \<times> int \<times> int \<Rightarrow> string" where
  "DD_MM_YYYY c =
     (case c of (y, m, d) \<Rightarrow> two_digits d @ ''-'' @ two_digits m @ ''-'' @ four_digits y)"

text \<open>
  The date of a day number (days since 1 January 1970) and the day number of a date; a
  date is valid when its month and day exist.
\<close>

definition civil_of_day :: "int \<Rightarrow> int \<times> int \<times> int" where
  "civil_of_day n =
     (YearFromTime (n * msPerDay), MonthFromTime (n * msPerDay) + 1, DateFromTime (n * msPerDay))"

definition day_of_civil :: "int \<times> int \<times> int \<Rightarrow> int" where
  "day_of_civil c = (case c of (y, m, d) \<Rightarrow> DayFromYear y + monthStart y (m - 1) + d - 1)"

definition valid_date :: "int \<times> int \<times> int \<Rightarrow> bool" where
  "valid_date c =
     (case c of (y, m, d) \<Rightarrow> 1 \<le> m \<and> m \<le> 12 \<and> 1 \<le> d \<and> d \<le> DaysInMonth y (m - 1))"

lemma civil_of_day_of_civil:
  assumes "valid_date c"
  shows "civil_of_day (day_of_civil c) = c"
proof -
  obtain y m d where c: "c = (y, m, d)" by (cases c) auto
  have "YearFromTime (day_of_civil c * msPerDay) = y
      \<and> MonthFromTime (day_of_civil c * msPerDay) = m - 1
      \<and> DateFromTime (day_of_civil c * msPerDay) = d"
    by (rule fields_of_day)
       (use assms in \<open>simp_all add: c valid_date_def day_of_civil_def Day_msPerDay\<close>)
  then show ?thesis by (simp add: civil_of_day_def c)
qed

lemma day_of_civil_of_day: "day_of_civil (civil_of_day n) = n"
  using Day_decomp[of "n * msPerDay"]
  by (simp add: day_of_civil_def civil_of_day_def Day_msPerDay)

lemma nat_lt_10_cases:
  fixes k :: nat
  assumes "k < 10"
  shows "k = 0 \<or> k = 1 \<or> k = 2 \<or> k = 3 \<or> k = 4 \<or> k = 5 \<or> k = 6 \<or> k = 7 \<or> k = 8 \<or> k = 9"
  using assms by arith

lemma digit_val_digit_char: "k < 10 \<Longrightarrow> digit_val (digit_char k) = Some k"
  by (drule nat_lt_10_cases) (elim disjE; simp add: digit_val_def digit_char_eval)

lemma digit_char_not_dash: "k < 10 \<Longrightarrow> digit_char k \<noteq> CHR ''-''"
  by (drule nat_lt_10_cases) (elim disjE; simp add: digit_char_eval)

lemma split_on_DD_MM_YYYY:
  assumes "0 \<le> d" "d \<le> 99" "0 \<le> m" "m \<le> 99" "0 \<le> y" "y \<le> 9999"
  shows "split_on CHR ''-'' (DD_MM_YYYY (y, m, d)) = [two_digits d, two_digits m, four_digits y]"
proof -
  have "nat d div 10 < 10" "nat d mod 10 < 10" "nat m div 10 < 10" "nat m mod 10 < 10"
    "nat y div 1000 < 10" "nat y div 100 mod 10 < 10" "nat y div 10 mod 10 < 10" "nat y mod 10 < 10"
    using assms by simp_all
  then show ?thesis
    by (simp add: DD_MM_YYYY_def two_digits_def four_digits_def digit_char_not_dash)
qed

lemma ToNumber_two_digits:
  assumes "0 \<le> n" "n \<le> 99"
  shows "ToNumber (Some (two_digits n)) = Some n"
proof -
  have "nat n div 10 < 10" "nat n mod 10 < 10" using assms by simp_all
  then have "decimal 0 (two_digits n) = Some (10 * (nat n div 10) + nat n mod 10)"
    by (simp add: two_digits_def digit_val_digit_char)
  then show ?thesis using assms by (simp add: ToNumber_def)
qed

lemma decimal_expansion:
  fixes k :: nat
  shows "10 * (10 * (10 * (k div 1000) + k div 100 mod 10) + k div 10 mod 10) + k mod 10 = k"
proof -
  have e: "k div 10 div 10 = k div 100" "k div 100 div 10 = k div 1000"
    by (simp_all add: div_mult2_eq[symmetric])
  have h3: "10 * (k div 1000) + k div 100 mod 10 = k div 100"
    using mult_div_mod_eq[of 10 "k div 100"] by (simp only: e)
  have h2: "10 * (k div 100) + k div 10 mod 10 = k div 10"
    using mult_div_mod_eq[of 10 "k div 10"] by (simp only: e)
  have h1: "10 * (k div 10) + k mod 10 = k"
    by (rule mult_div_mod_eq)
  show ?thesis by (simp only: h3 h2 h1)
qed

lemma ToNumber_four_digits:
  assumes "0 \<le> n" "n \<le> 9999"
  shows "ToNumber (Some (four_digits n)) = Some n"
proof -
  have "nat n div 1000 < 10" "nat n div 100 mod 10 < 10" "nat n div 10 mod 10 < 10" "nat n mod 10 < 10"
    using assms by simp_all
  then have "decimal 0 (four_digits n)
      = Some (10 * (10 * (10 * (nat n div 1000) + nat n div 100 mod 10) + nat n div 10 mod 10)
              + nat n mod 10)"
    by (simp add: four_digits_def digit_val_digit_char)
  moreover have "10 * (10 * (10 * (nat n div 1000) + nat n div 100 mod 10) + nat n div 10 mod 10)
              + nat n mod 10 = nat n"
    by (rule decimal_expansion)
  ultimately show ?thesis using assms by (simp add: ToNumber_def)
qed

lemma num_to_string_nonneg: "0 \<le> v \<Longrightarrow> num_to_string (Some v) = digits (nat v)"
  by (simp add: num_to_string_def)

lemma two_digits_eq:
  assumes "0 \<le> n" "n \<le> 99"
  shows "(if num_le (Some n) (Some 9) then CHR ''0'' # num_to_string (Some n)
          else num_to_string (Some n)) = two_digits n"
proof (cases "n \<le> 9")
  case True
  then have "nat n < 10" "nat n div 10 = 0" "nat n mod 10 = nat n" using assms by simp_all
  then show ?thesis
    using True assms
    by (simp add: num_le_def num_to_string_nonneg digits_one two_digits_def digit_char_eval)
next
  case False
  then have "10 \<le> nat n" "nat n < 100" using assms by simp_all
  then show ?thesis
    using False assms by (simp add: num_le_def num_to_string_nonneg digits_two two_digits_def)
qed

lemma four_digits_eq:
  assumes "1000 \<le> n" "n \<le> 9999"
  shows "num_to_string (Some n) = four_digits n"
proof -
  have "1000 \<le> nat n" "nat n < 10000" using assms by simp_all
  then show ?thesis using assms by (simp add: num_to_string_nonneg digits_four four_digits_def)
qed

lemma fields_of_Day:
  assumes "Day s = Day t"
  shows "YearFromTime s = YearFromTime t" "MonthFromTime s = MonthFromTime t"
    "DateFromTime s = DateFromTime t"
proof -
  show y: "YearFromTime s = YearFromTime t" using assms by (simp add: YearFromTime_def)
  have d: "DayWithinYear s = DayWithinYear t" "InLeapYear s = InLeapYear t"
    using assms y by (simp_all add: DayWithinYear_def InLeapYear_def)
  show m: "MonthFromTime s = MonthFromTime t" by (simp add: MonthFromTime_def d)
  show "DateFromTime s = DateFromTime t" by (simp add: DateFromTime_def d m)
qed

lemma getWorkSchedule_entry_day:
  assumes n: "Day (LocalTime tz u) = n"
    and y: "1000 \<le> YearFromTime (n * msPerDay)" "YearFromTime (n * msPerDay) \<le> 9999"
  shows "getWorkSchedule_entry tz (Some u) = DD_MM_YYYY (civil_of_day n)"
proof -
  define L where "L = n * msPerDay"
  have f: "YearFromTime (LocalTime tz u) = YearFromTime L"
    "MonthFromTime (LocalTime tz u) = MonthFromTime L"
    "DateFromTime (LocalTime tz u) = DateFromTime L"
    using fields_of_Day[of "LocalTime tz u" L] n by (simp_all add: L_def Day_msPerDay)
  have d: "0 \<le> DateFromTime L" "DateFromTime L \<le> 99"
    using DateFromTime_range[of L] by simp_all
  have m: "0 \<le> MonthFromTime L + 1" "MonthFromTime L + 1 \<le> 99"
    using MonthFromTime_range[of L] by simp_all
  show ?thesis
    using y
    by (simp add: getWorkSchedule_entry_def Let_def getDate_def getMonth_def getFullYear_def
        f num_add_def L_def[symmetric] two_digits_eq[OF d] two_digits_eq[OF m]
        four_digits_eq DD_MM_YYYY_def civil_of_day_def split del: if_split cong: if_cong)
qed

lemma getWorkSchedule_entry_eq:
  assumes "1000 \<le> YearFromTime (n * msPerDay)" "YearFromTime (n * msPerDay) \<le> 9999"
  shows "getWorkSchedule_entry (fixed_offset tza) (Some (n * msPerDay - tza)) = DD_MM_YYYY (civil_of_day n)"
  using assms by (intro getWorkSchedule_entry_day) (simp_all add: LocalTime_def Day_msPerDay)

text \<open>The cycle: position \<open>n2\<close> on the day with offset \<open>j\<close> from the start.\<close>

definition cycle_inv :: "int \<Rightarrow> int \<Rightarrow> int \<Rightarrow> int \<Rightarrow> bool" where
  "cycle_inv w off j n2 \<longleftrightarrow> 1 \<le> n2 \<and> n2 \<le> w + off + 1 \<and> (n2 - 1) mod (w + off) = j mod (w + off)"

lemma cycle_emit:
  assumes "0 < w" "0 < off" "cycle_inv w off j n2"
  shows "(n2 \<le> w \<or> n2 > w + off) \<longleftrightarrow> j mod (w + off) < w"
proof -
  have n: "1 \<le> n2" "n2 \<le> w + off + 1" and e: "(n2 - 1) mod (w + off) = j mod (w + off)"
    using assms(3) by (simp_all add: cycle_inv_def)
  show ?thesis
  proof (cases "n2 = w + off + 1")
    case True
    then have "(n2 - 1) mod (w + off) = 0" by simp
    then show ?thesis using True e assms(1,2) by simp
  next
    case False
    then have "0 \<le> n2 - 1" "n2 - 1 < w + off" using n by simp_all
    then have "(n2 - 1) mod (w + off) = n2 - 1" by simp
    then show ?thesis using e n False by auto
  qed
qed

lemma cycle_step:
  assumes "0 < w" "0 < off" "cycle_inv w off j n2"
  shows "cycle_inv w off (j + 1) (if n2 \<le> w then n2 + 1 else if n2 > w + off then 2 else n2 + 1)"
proof -
  have n: "1 \<le> n2" "n2 \<le> w + off + 1" and e: "(n2 - 1) mod (w + off) = j mod (w + off)"
    using assms(3) by (simp_all add: cycle_inv_def)
  have s: "(j + 1) mod (w + off) = ((n2 - 1) mod (w + off) + 1) mod (w + off)"
    by (simp add: e mod_simps)
  show ?thesis
  proof (cases "n2 > w + off")
    case True
    then have "n2 = w + off + 1" using n by simp
    then have "(n2 - 1) mod (w + off) = 0" by simp
    then have "(j + 1) mod (w + off) = 1 mod (w + off)" using s by simp
    then show ?thesis using True assms(1,2) by (simp add: cycle_inv_def)
  next
    case False
    have "(n2 + 1 - 1) mod (w + off) = (j + 1) mod (w + off)"
      unfolding s by (simp add: mod_simps)
    then show ?thesis using False n by (simp add: cycle_inv_def)
  qed
qed

lemma getWorkSchedule_loop_eq:
  assumes w: "0 < w" "0 < off" and tz: "\<bar>tza\<bar> \<le> msPerDay"
    and lo: "- 99999000 \<le> D" and hi: "E \<le> 99999000"
    and inv: "cycle_inv w off (D - S) n2"
    and n: "n = nat (E + 1 - D)"
  shows "getWorkSchedule_loop (fixed_offset tza) w off (Some (E * msPerDay - tza)) (Some (D * msPerDay - tza))
           (n2, mass)
         = mass @ map (\<lambda>k. getWorkSchedule_entry (fixed_offset tza) (Some (k * msPerDay - tza)))
                    (filter (\<lambda>k. (k - S) mod (w + off) < w) [D..E])"
  using lo inv n
proof (induction n arbitrary: D n2 mass)
  case 0
  then have "E < D" by simp
  then show ?case
    by (subst getWorkSchedule_loop.simps) (simp add: num_le_def msPerDay_def)
next
  case (Suc n)
  then have le: "D \<le> E" by simp
  define entry where "entry = getWorkSchedule_entry (fixed_offset tza) (Some (D * msPerDay - tza))"
  define n2' where "n2' = (if n2 \<le> w then n2 + 1 else if n2 > w + off then 2 else n2 + 1)"
  define mass' where "mass' = (if (D - S) mod (w + off) < w then mass @ [entry] else mass)"
  have emit: "(n2 \<le> w \<or> n2 > w + off) \<longleftrightarrow> (D - S) mod (w + off) < w"
    using cycle_emit[OF w Suc.prems(2)] .
  have body: "getWorkSchedule_body w off entry (n2, mass) = (n2', mass')"
    using emit by (auto simp: getWorkSchedule_body_def n2'_def mass'_def)
  have c: "num_le (Some (D * msPerDay - tza)) (Some (E * msPerDay - tza))"
    using le by (simp add: num_le_def msPerDay_def)
  have nd: "next_day (fixed_offset tza) (Some (D * msPerDay - tza)) = Some ((D + 1) * msPerDay - tza)"
  proof -
    have "next_day (fixed_offset tza) (Some (D * msPerDay - tza)) = Some (D * msPerDay - tza + msPerDay)"
      using tz Suc.prems(1) le hi
      by (intro next_day_ok) (simp_all add: msPerDay_def maxTime_def)
    then show ?thesis by (simp add: algebra_simps)
  qed
  have inv': "cycle_inv w off (D + 1 - S) n2'"
    using cycle_step[OF w Suc.prems(2)] by (simp add: n2'_def algebra_simps)
  have ih: "getWorkSchedule_loop (fixed_offset tza) w off (Some (E * msPerDay - tza))
              (Some ((D + 1) * msPerDay - tza)) (n2', mass')
            = mass' @ map (\<lambda>k. getWorkSchedule_entry (fixed_offset tza) (Some (k * msPerDay - tza)))
                        (filter (\<lambda>k. (k - S) mod (w + off) < w) [D + 1..E])"
    using Suc.prems(1,3) inv' by (intro Suc.IH) simp_all
  have u: "[D..E] = D # [D + 1..E]" using le by (simp add: upto_rec1)
  have "getWorkSchedule_loop (fixed_offset tza) w off (Some (E * msPerDay - tza)) (Some (D * msPerDay - tza))
           (n2, mass)
      = getWorkSchedule_loop (fixed_offset tza) w off (Some (E * msPerDay - tza))
              (Some ((D + 1) * msPerDay - tza)) (n2', mass')"
    using c by (subst getWorkSchedule_loop.simps) (simp add: nd entry_def[symmetric] body)
  then show ?case unfolding ih u by (simp add: mass'_def entry_def)
qed

lemma year_in_range:
  assumes "DayFromYear 1000 \<le> k" "k < DayFromYear 10000"
  shows "1000 \<le> YearFromTime (k * msPerDay) \<and> YearFromTime (k * msPerDay) \<le> 9999"
proof -
  have "TimeFromYear 1000 \<le> k * msPerDay"
    using assms(1) by (simp add: TimeFromYear_le_iff Day_msPerDay)
  moreover have "\<not> TimeFromYear 10000 \<le> k * msPerDay"
    using assms(2) by (simp add: TimeFromYear_le_iff Day_msPerDay)
  ultimately show ?thesis by (simp add: YearFromTime_largest)
qed

lemma day_of_civil_bounds:
  assumes "valid_date (y, m, d)"
  shows "DayFromYear y \<le> day_of_civil (y, m, d) \<and> day_of_civil (y, m, d) < DayFromYear (y + 1)"
proof -
  have "civil_of_day (day_of_civil (y, m, d)) = (y, m, d)"
    using assms by (rule civil_of_day_of_civil)
  then have "YearFromTime (day_of_civil (y, m, d) * msPerDay) = y"
    by (simp add: civil_of_day_def)
  then show ?thesis
    using YearFromTime_bounds[of "day_of_civil (y, m, d) * msPerDay"] by (simp add: Day_msPerDay)
qed

lemma Date_of_DD_MM_YYYY:
  assumes v: "valid_date (y, m, d)" and y: "1000 \<le> y" "y \<le> 9999" and tz: "\<bar>tza\<bar> \<le> msPerDay"
  defines "a \<equiv> split_on CHR ''-'' (DD_MM_YYYY (y, m, d))"
  shows "Date_ymd (fixed_offset tza) (ToNumber (index a 2)) (num_sub (ToNumber (index a 1)) (Some 1))
           (ToNumber (index a 0))
         = Some (day_of_civil (y, m, d) * msPerDay - tza)"
proof -
  have m: "1 \<le> m" "m \<le> 12" and d: "1 \<le> d" "d \<le> 31"
    using v by (auto simp: valid_date_def DaysInMonth_def split: if_splits)
  have a: "a = [two_digits d, two_digits m, four_digits y]"
    unfolding a_def using m d y by (intro split_on_DD_MM_YYYY) simp_all
  have f: "ToNumber (index a 2) = Some y" "ToNumber (index a (Suc 0)) = Some m"
    "ToNumber (index a 0) = Some d"
    using m d y by (simp_all add: a index_def ToNumber_two_digits ToNumber_four_digits)
  have my: "MakeFullYear y = y" using y by (simp add: MakeFullYear_def)
  have dm: "(m - 1) div 12 = 0" "(m - 1) mod 12 = m - 1" using m by simp_all
  define F where "F = DayFromYear y + monthStart y (m - 1)"
  have "- 99999746 \<le> DayFromYear y" "DayFromYear y \<le> 99999381"
    using DayFromYear_range[of y] DayFromYear_range'[of y] y by simp_all
  then have F: "- 99999746 \<le> F" "F \<le> 99999381 + 335"
    using monthStart_range[of y "m - 1"] by (simp_all add: F_def)
  have r: "\<not> maxTime < \<bar>(F + d - 1) * msPerDay - tza\<bar>"
    using F d tz by (simp add: msPerDay_def maxTime_def)
  show ?thesis
    using r y m
    by (simp add: f num_sub_def Date_ymd_Some my MakeDay_eq dm F_def[symmetric] TimeClip_def
        day_of_civil_def)
qed

text \<open>
  The cycle. For a period of valid dates in the format \<^verbatim>\<open>DD-MM-YYYY\<close> whose years
  have four digits, from 1000 to 9999, and positive counts of work days and days off, in
  a zone whose offset, at most a day, never changes, the result is, in ascending
  order and in the same format, the days of the period whose offset from the start,
  modulo the length of the cycle, is less than the number of work days. (When the start
  is after the end both sides are empty.)
\<close>

lemma getWorkSchedule_cycle:
  assumes v: "valid_date s" "valid_date e"
    and ys: "1000 \<le> fst s" "fst s \<le> 9999" and ye: "1000 \<le> fst e" "fst e \<le> 9999"
    and w: "0 < countWorkDays" "0 < countOffDays"
    and tz: "\<bar>tza\<bar> \<le> msPerDay"
  shows "getWorkSchedule (fixed_offset tza) \<lparr>start = DD_MM_YYYY s, finish = DD_MM_YYYY e\<rparr>
           countWorkDays countOffDays
         = map (\<lambda>k. DD_MM_YYYY (civil_of_day k))
             (filter (\<lambda>k. (k - day_of_civil s) mod (countWorkDays + countOffDays) < countWorkDays)
                [day_of_civil s..day_of_civil e])"
proof -
  obtain y1 m1 d1 where s: "s = (y1, m1, d1)" by (cases s) auto
  obtain y2 m2 d2 where e: "e = (y2, m2, d2)" by (cases e) auto
  define S where "S = day_of_civil s"
  define E where "E = day_of_civil e"
  have sb: "DayFromYear 1000 \<le> S"
    using day_of_civil_bounds[of y1 m1 d1] v(1) ys(1) DayFromYear_mono[of 1000 y1]
    by (simp add: s S_def)
  have eb: "E < DayFromYear 10000"
    using day_of_civil_bounds[of y2 m2 d2] v(2) ye(2) DayFromYear_mono[of "y2 + 1" 10000]
    by (simp add: e E_def)
  have c: "DayFromYear 1000 = - 354285" "DayFromYear 10000 = 2932897"
    by (simp_all add: DayFromYear_def)
  have aa: "Date_ymd (fixed_offset tza) (ToNumber (index (split_on CHR ''-'' (DD_MM_YYYY s)) 2))
      (num_sub (ToNumber (index (split_on CHR ''-'' (DD_MM_YYYY s)) 1)) (Some 1))
      (ToNumber (index (split_on CHR ''-'' (DD_MM_YYYY s)) 0)) = Some (S * msPerDay - tza)"
    using Date_of_DD_MM_YYYY[of y1 m1 d1 tza] v(1) ys tz by (simp add: s S_def)
  have bb: "Date_ymd (fixed_offset tza) (ToNumber (index (split_on CHR ''-'' (DD_MM_YYYY e)) 2))
      (num_sub (ToNumber (index (split_on CHR ''-'' (DD_MM_YYYY e)) 1)) (Some 1))
      (ToNumber (index (split_on CHR ''-'' (DD_MM_YYYY e)) 0)) = Some (E * msPerDay - tza)"
    using Date_of_DD_MM_YYYY[of y2 m2 d2 tza] v(2) ye tz by (simp add: e E_def)
  have i: "cycle_inv countWorkDays countOffDays (S - S) 1"
    using w by (simp add: cycle_inv_def)
  have "getWorkSchedule (fixed_offset tza) \<lparr>start = DD_MM_YYYY s, finish = DD_MM_YYYY e\<rparr>
           countWorkDays countOffDays
      = getWorkSchedule_loop (fixed_offset tza) countWorkDays countOffDays (Some (E * msPerDay - tza))
          (Some (S * msPerDay - tza)) (1, [])"
    by (simp only: getWorkSchedule_def Let_def DatePeriod.select_convs aa bb)
  also have "\<dots> = [] @ map (\<lambda>k. getWorkSchedule_entry (fixed_offset tza) (Some (k * msPerDay - tza)))
      (filter (\<lambda>k. (k - S) mod (countWorkDays + countOffDays) < countWorkDays) [S..E])"
    using sb eb by (intro getWorkSchedule_loop_eq[OF w tz _ _ i]) (simp_all add: c)
  also have "\<dots> = map (\<lambda>k. DD_MM_YYYY (civil_of_day k))
      (filter (\<lambda>k. (k - S) mod (countWorkDays + countOffDays) < countWorkDays) [S..E])"
  proof -
    have "getWorkSchedule_entry (fixed_offset tza) (Some (k * msPerDay - tza)) = DD_MM_YYYY (civil_of_day k)"
      if "k \<in> set [S..E]" for k
    proof -
      have "DayFromYear 1000 \<le> k" "k < DayFromYear 10000" using that sb eb by simp_all
      then show ?thesis
        using year_in_range[of k] by (intro getWorkSchedule_entry_eq) simp_all
    qed
    then show ?thesis by (simp cong: map_cong)
  qed
  finally show ?thesis by (simp add: S_def E_def)
qed

text \<open>The first two weeks of 2024, one day on and three days off.\<close>

lemma getWorkSchedule_1_on_3_off:
  "getWorkSchedule (fixed_offset 0) \<lparr>start = ''01-01-2024'', finish = ''15-01-2024''\<rparr> 1 3
   = [''01-01-2024'', ''05-01-2024'', ''09-01-2024'', ''13-01-2024'']"
proof -
  have v: "valid_date (2024, 1, 1)" "valid_date (2024, 1, 15)"
    "valid_date (2024, 1, 5)" "valid_date (2024, 1, 9)" "valid_date (2024, 1, 13)"
    by (simp_all add: valid_date_def DaysInMonth_def)
  have f: "DD_MM_YYYY (2024, 1, 1) = ''01-01-2024''" "DD_MM_YYYY (2024, 1, 15) = ''15-01-2024''"
    "DD_MM_YYYY (2024, 1, 5) = ''05-01-2024''" "DD_MM_YYYY (2024, 1, 9) = ''09-01-2024''"
    "DD_MM_YYYY (2024, 1, 13) = ''13-01-2024''"
    by (simp_all add: DD_MM_YYYY_def two_digits_def four_digits_def digit_char_eval)
  have d: "day_of_civil (2024, 1, 1) = 19723" "day_of_civil (2024, 1, 15) = 19737"
    "day_of_civil (2024, 1, 5) = 19727" "day_of_civil (2024, 1, 9) = 19731"
    "day_of_civil (2024, 1, 13) = 19735"
    by (simp_all add: day_of_civil_def DayFromYear_eval monthStart_def)
  have c: "civil_of_day 19723 = (2024, 1, 1)" "civil_of_day 19727 = (2024, 1, 5)"
    "civil_of_day 19731 = (2024, 1, 9)" "civil_of_day 19735 = (2024, 1, 13)"
    using civil_of_day_of_civil[OF v(1)] civil_of_day_of_civil[OF v(3)]
      civil_of_day_of_civil[OF v(4)] civil_of_day_of_civil[OF v(5)]
    by (simp_all add: d)
  have l: "filter (\<lambda>k. (k - 19723) mod (1 + 3) < 1) [19723..19737] = [19723, 19727, 19731, 19735]"
    by (simp add: upto_rec1)
  have "getWorkSchedule (fixed_offset 0) \<lparr>start = DD_MM_YYYY (2024, 1, 1), finish = DD_MM_YYYY (2024, 1, 15)\<rparr> 1 3
      = map (\<lambda>k. DD_MM_YYYY (civil_of_day k))
          (filter (\<lambda>k. (k - day_of_civil (2024, 1, 1)) mod (1 + 3) < 1)
             [day_of_civil (2024, 1, 1)..day_of_civil (2024, 1, 15)])"
    by (rule getWorkSchedule_cycle) (simp_all add: v msPerDay_def)
  then show ?thesis
    unfolding d l by (simp add: f c)
qed

lemma digits_999: "digits 999 = ''999''"
proof -
  have "digits 999 = digits 99 @ [digit_char 9]" by (subst digits.simps) simp
  then show ?thesis by (simp add: digits_two digit_char_eval)
qed

text \<open>
  C6. The claim: for a period in the format \<^verbatim>\<open>DD-MM-YYYY\<close> the result is the
  list of the work days of the cycle, in the format \<^verbatim>\<open>DD-MM-YYYY\<close>. The function
  pads the day and the month to two digits and prints the year as the number it is: for
  a period within the year 0999, written in the format, the date it returns has a year of
  three digits. The result is not in the format the claim and the description of the
  function give, \<^verbatim>\<open>01-01-0999\<close>.
\<close>

theorem getWorkSchedule_year_999:
  "getWorkSchedule (fixed_offset 0) \<lparr>start = ''01-01-0999'', finish = ''01-01-0999''\<rparr> 1 1 = [''01-01-999'']"
proof -
  have s: "split_on CHR ''-'' ''01-01-0999'' = [''01'', ''01'', ''0999'']" by simp
  have n: "ToNumber (Some ''01'') = Some 1" "ToNumber (Some ''0999'') = Some 999"
    by (simp_all add: ToNumber_def digit_val_def)
  have a: "Date_ymd (fixed_offset 0) (Some 999) (Some 0) (Some 1) = Some (- 30641760000000)"
    by (simp add: Date_ymd_Some MakeFullYear_def MakeDay_eq DayFromYear_eval monthStart_def
        TimeClip_def msPerDay_def maxTime_def)
  have f: "YearFromTime (- 30641760000000) = 999 \<and> MonthFromTime (- 30641760000000) = 0
      \<and> DateFromTime (- 30641760000000) = 1"
    by (rule fields_of_day)
       (simp_all add: DaysInMonth_def DayFromYear_eval monthStart_def Day_def msPerDay_def)
  have en: "getWorkSchedule_entry (fixed_offset 0) (Some (- 30641760000000)) = ''01-01-999''"
    by (simp add: getWorkSchedule_entry_def Let_def getDate_def getMonth_def getFullYear_def
        LocalTime_def f num_add_def num_le_def num_to_string_def digits_one digits_999
        digit_char_eval)
  have nd: "next_day (fixed_offset 0) (Some (- 30641760000000)) = Some (- 30641760000000 + msPerDay)"
    by (rule next_day_ok) (simp_all add: msPerDay_def maxTime_def)
  have "getWorkSchedule_loop (fixed_offset 0) 1 1 (Some (- 30641760000000))
      (Some (- 30641760000000 + msPerDay)) (2, [''01-01-999'']) = [''01-01-999'']"
    by (subst getWorkSchedule_loop.simps) (simp add: num_le_def msPerDay_def)
  then have "getWorkSchedule_loop (fixed_offset 0) 1 1 (Some (- 30641760000000))
      (Some (- 30641760000000)) (1, []) = [''01-01-999'']"
    by (subst getWorkSchedule_loop.simps)
       (simp add: num_le_def nd en getWorkSchedule_body_def)
  then show ?thesis
    by (simp add: getWorkSchedule_def Let_def s index_def n num_sub_def a)
qed

text \<open>
  The scan of the days also compares times, not dates. In Sao Paulo the clocks went from
  00:00 to 01:00 on 4 November 2018; from that day on the Date of the loop is at 01:00,
  local time, on 9 November it is after the end of the period, which is at 00:00, and
  the last day of the period, a work day, is not in the result.
\<close>

lemma getWorkSchedule_America_Sao_Paulo_2018:
  "getWorkSchedule America_Sao_Paulo_2018 \<lparr>start = ''01-11-2018'', finish = ''09-11-2018''\<rparr> 1 1
   = [''01-11-2018'', ''03-11-2018'', ''05-11-2018'', ''07-11-2018'']"
proof -
  have e: "DayFromYear 2018 = 17532" "DaysInYear 2018 = 365"
    by (simp_all add: DayFromYear_def DaysInYear_def)
  have s: "split_on CHR ''-'' ''01-11-2018'' = [''01'', ''11'', ''2018'']"
    "split_on CHR ''-'' ''09-11-2018'' = [''09'', ''11'', ''2018'']"
    by simp_all
  have t: "ToNumber (Some ''01'') = Some 1" "ToNumber (Some ''09'') = Some 9"
    "ToNumber (Some ''11'') = Some 11" "ToNumber (Some ''2018'') = Some 2018"
    by (simp_all add: ToNumber_def digit_val_def)
  have aa: "Date_ymd America_Sao_Paulo_2018 (Some 2018) (Some 10) (Some 1) = Some 1541041200000"
    by (simp add: Date_ymd_zone MakeFullYear_def MakeDay_eq e monthStart_def
        LocalTZA_America_Sao_Paulo_2018 TimeClip_def msPerDay_def maxTime_def)
  have bb: "Date_ymd America_Sao_Paulo_2018 (Some 2018) (Some 10) (Some 9) = Some 1541728800000"
    by (simp add: Date_ymd_zone MakeFullYear_def MakeDay_eq e monthStart_def
        LocalTZA_America_Sao_Paulo_2018 TimeClip_def msPerDay_def maxTime_def)
  have n: "next_day America_Sao_Paulo_2018 (Some u)
      = Some (u + LocalTZA America_Sao_Paulo_2018 u True + msPerDay
                - LocalTZA America_Sao_Paulo_2018
                    (u + LocalTZA America_Sao_Paulo_2018 u True + msPerDay) False)"
    if "1541000000000 \<le> u" "u \<le> 1542000000000" for u
    using that
    by (intro next_day_zone)
       (auto simp: LocalTZA_America_Sao_Paulo_2018 msPerDay_def maxTime_def)
  have c: "civil_of_day (17835 + d) = (2018, 11, d)" if "1 \<le> d" "d \<le> 30" for d
  proof -
    have "valid_date (2018, 11, d)" using that by (simp add: valid_date_def DaysInMonth_def)
    then have "civil_of_day (day_of_civil (2018, 11, d)) = (2018, 11, d)"
      by (rule civil_of_day_of_civil)
    then show ?thesis by (simp add: day_of_civil_def e monthStart_def)
  qed
  have en: "getWorkSchedule_entry America_Sao_Paulo_2018 (Some u)
      = DD_MM_YYYY (2018, 11, Day (LocalTime America_Sao_Paulo_2018 u) - 17835)"
    if "17836 \<le> Day (LocalTime America_Sao_Paulo_2018 u)"
      "Day (LocalTime America_Sao_Paulo_2018 u) \<le> 17865" for u
  proof -
    define d where "d = Day (LocalTime America_Sao_Paulo_2018 u) - 17835"
    have d: "1 \<le> d" "d \<le> 30" "Day (LocalTime America_Sao_Paulo_2018 u) = 17835 + d"
      using that by (simp_all add: d_def)
    have "YearFromTime ((17835 + d) * msPerDay) = 2018"
      using c[OF d(1,2)] by (simp add: civil_of_day_def)
    then have "getWorkSchedule_entry America_Sao_Paulo_2018 (Some u)
        = DD_MM_YYYY (civil_of_day (17835 + d))"
      by (intro getWorkSchedule_entry_day d(3)) simp_all
    also have "civil_of_day (17835 + d) = (2018, 11, d)" by (rule c[OF d(1,2)])
    finally show ?thesis unfolding d_def .
  qed
  show ?thesis
    unfolding getWorkSchedule_def Let_def
    by (simp add: s index_def t num_sub_def aa bb getWorkSchedule_loop.simps n en
        getWorkSchedule_body_def LocalTime_def LocalTZA_America_Sao_Paulo_2018 num_le_def
        Day_def msPerDay_def DD_MM_YYYY_def two_digits_def four_digits_def digit_char_eval)
qed

section \<open>formatDate\<close>

text \<open>
  C9. The claim: the assignment that prints the PM hour as it is, \<open>PM_unadjusted\<close>, is
  never reached. The code reaches it: the guard tests the hour and, twice, the minutes,
  and never the seconds, so the assignment runs exactly when the UTC hour is 12 and the
  UTC minute is 59.
\<close>

theorem formatDate_branch_PM_unadjusted_iff:
  "formatDate_branch a = PM_unadjusted \<longleftrightarrow> getUTCHours a = Some 12 \<and> getUTCMinutes a = Some 59"
  by (auto simp: formatDate_branch_def num_ge_def num_eq_def Let_def split: option.splits)

text \<open>The input 12:59 UTC takes the branch, and the hour is printed as 12.\<close>

theorem formatDate_branch_reached:
  "formatDate_branch (Date_parse (fixed_offset 0) ''2024-02-01T12:59:00.000Z'') = PM_unadjusted
   \<and> formatDate (fixed_offset 0) ''2024-02-01T12:59:00.000Z'' = ''2/1/2024, 12:59:00 PM''"
proof -
  have b: "formatDate_branch (Some 1706792340000) = PM_unadjusted"
    by (simp add: formatDate_branch_def getUTCHours_def getUTCMinutes_def time_fields_eval
        num_ge_def num_eq_def)
  have "formatDate (fixed_offset 0) ''2024-02-01T12:59:00.000Z'' = ''2/1/2024, 12:59:00 PM''"
    unfolding formatDate_def Date_parse_2024_02 Let_def b
    by (simp add: getUTCHours_def getUTCMinutes_def getUTCSeconds_def getUTCFullYear_def
        getUTCMonth_def getUTCDate_def time_fields_eval date_fields_eval num_ge_def num_add_def
        num_to_string_def digits_one digits_two digits_four digit_char_eval)
  then show ?thesis by (simp add: Date_parse_2024_02 b)
qed

text \<open>
  C3. The claim: hour 0 is printed as 12 with AM, hour 12 as 12 with PM, and minutes and
  seconds have two digits. The code prints hour 0 as 0 and hour 12 as 0 (12 - 12), and it
  pads minutes and seconds only below 9, so 9 is printed as one digit.
\<close>

theorem formatDate_hour_0_and_minute_9:
  "formatDate tz ''2024-02-01T00:09:09.000Z'' = ''2/1/2024, 0:9:9 AM''
   \<and> formatDate tz ''2024-02-01T12:00:00.000Z'' = ''2/1/2024, 0:00:00 PM''"
proof -
  have b: "formatDate_branch (Some 1706746149000) = AM_unadjusted"
    "formatDate_branch (Some 1706788800000) = PM_minus_12"
    by (simp_all add: formatDate_branch_def getUTCHours_def getUTCMinutes_def time_fields_eval
        num_ge_def num_eq_def)
  have "formatDate tz ''2024-02-01T00:09:09.000Z'' = ''2/1/2024, 0:9:9 AM''"
    unfolding formatDate_def Date_parse_2024_02 Let_def b
    by (simp add: getUTCHours_def getUTCMinutes_def getUTCSeconds_def getUTCFullYear_def
        getUTCMonth_def getUTCDate_def time_fields_eval date_fields_eval num_ge_def num_add_def
        num_to_string_def digits_one digits_two digits_four digit_char_eval)
  moreover have "formatDate tz ''2024-02-01T12:00:00.000Z'' = ''2/1/2024, 0:00:00 PM''"
    unfolding formatDate_def Date_parse_2024_02 Let_def b
    by (simp add: getUTCHours_def getUTCMinutes_def getUTCSeconds_def getUTCFullYear_def
        getUTCMonth_def getUTCDate_def time_fields_eval date_fields_eval num_ge_def num_add_def
        num_sub_def num_to_string_def digits_one digits_two digits_four digit_char_eval)
  ultimately show ?thesis by simp
qed

section \<open>getCountDaysOnPeriod\<close>

text \<open>
  C4. The claim: the result is the integer \<open>floor ((end - start) / 86400000) + 1\<close>. The
  code does not round: from midnight to noon of the next day (129600000 ms) it returns
  5/2, where the claim says 129600000 div 86400000 + 1 = 2.
\<close>

theorem getCountDaysOnPeriod_not_floored:
  "getCountDaysOnPeriod tz ''2024-02-01T00:00:00.000Z'' ''2024-02-02T12:00:00.000Z'' = Some (5 / 2)
   \<and> (1706875200000 - 1706745600000) div 86400000 + 1 = (2::int)"
proof -
  have "getCountDaysOnPeriod tz ''2024-02-01T00:00:00.000Z'' ''2024-02-02T12:00:00.000Z''
      = Some (5 / 2)"
    unfolding getCountDaysOnPeriod_def Date_parse_2024_02 Let_def
    by (simp add: num_sub_def)
  then show ?thesis by simp
qed

section \<open>isLeapYear\<close>

lemma num_rem_4: "num_eq (num_rem (Some y) (Some 4)) (Some 0) \<longleftrightarrow> y mod 4 = 0"
proof -
  have "sgn y * (\<bar>y\<bar> mod 4) = 0 \<longleftrightarrow> y mod 4 = 0"
  proof (cases "y = 0")
    case True
    then show ?thesis by simp
  next
    case False
    then have "sgn y * (\<bar>y\<bar> mod 4) = 0 \<longleftrightarrow> \<bar>y\<bar> mod 4 = 0" by (simp add: sgn_if)
    also have "\<dots> \<longleftrightarrow> 4 dvd \<bar>y\<bar>" by (simp add: mod_eq_0_iff_dvd)
    also have "\<dots> \<longleftrightarrow> 4 dvd y" by simp
    also have "\<dots> \<longleftrightarrow> y mod 4 = 0" by (simp add: mod_eq_0_iff_dvd)
    finally show ?thesis .
  qed
  then show ?thesis by (simp add: num_eq_def num_rem_def)
qed

text \<open>
  C5. \<open>isLeapYear\<close> is true exactly when the Date is valid and its (local) year is
  divisible by 4; there is no exception for centuries. The remainder \<^verbatim>\<open>%\<close> of a negative
  year is 0 exactly when the year is a multiple of 4, and on an Invalid Date the year is
  NaN and the result is false.
\<close>

theorem isLeapYear_iff_year_divisible_by_4:
  "isLeapYear tz d \<longleftrightarrow> (\<exists>y. getFullYear tz d = Some y \<and> y mod 4 = 0)"
proof (cases "getFullYear tz d")
  case None
  then show ?thesis by (simp add: isLeapYear_def num_eq_def num_rem_def)
next
  case (Some y)
  then show ?thesis by (simp add: isLeapYear_def num_rem_4)
qed

text \<open>1 March 1900: the year 1900 is not a leap year of the calendar, and the result is true.\<close>

theorem isLeapYear_1900:
  "getFullYear (fixed_offset 0) (Some (- 2203891200000)) = Some 1900 \<and> isLeapYear (fixed_offset 0) (Some (- 2203891200000))"
proof -
  have "YearFromTime (- 2203891200000) = 1900 \<and> MonthFromTime (- 2203891200000) = 2
      \<and> DateFromTime (- 2203891200000) = 1"
    by (rule fields_of_day)
       (simp_all add: DaysInMonth_def DaysInYear_eval DayFromYear_eval monthStart_def Day_def
         msPerDay_def)
  then have y: "getFullYear (fixed_offset 0) (Some (- 2203891200000)) = Some 1900"
    by (simp add: getFullYear_def LocalTime_def)
  then show ?thesis
    using isLeapYear_iff_year_divisible_by_4[of "fixed_offset 0" "Some (- 2203891200000)"] by simp
qed

section \<open>isDateInPeriod\<close>

text \<open>
  C1. The claim: the result is true exactly when \<open>start \<le> date \<le> end\<close>. The code
  gives the month of the string, which counts from 1, to the Date constructor, which
  counts months from 0 (\<open>getWorkSchedule\<close> subtracts 1, this function does not). Every date
  is read one month late, and a day past the end of that later month spills into the
  next: 31 January is read as 31 February, which is 2 March 2024, and so lies between
  1 February and 5 February, read as 1 March and 5 March.
\<close>

theorem isDateInPeriod_january_31_in_february:
  "isDateInPeriod (fixed_offset 0) ''2024-01-31'' \<lparr>start = ''2024-02-01'', finish = ''2024-02-05''\<rparr>"
proof -
  have s: "split_on CHR ''-'' ''2024-01-31'' = [''2024'', ''01'', ''31'']"
    "split_on CHR ''-'' ''2024-02-01'' = [''2024'', ''02'', ''01'']"
    "split_on CHR ''-'' ''2024-02-05'' = [''2024'', ''02'', ''05'']"
    by simp_all
  have n: "ToNumber (Some ''2024'') = Some 2024" "ToNumber (Some ''01'') = Some 1"
    "ToNumber (Some ''02'') = Some 2" "ToNumber (Some ''31'') = Some 31"
    "ToNumber (Some ''05'') = Some 5"
    by (simp_all add: ToNumber_def digit_val_def)
  have d: "Date_of_fields (fixed_offset 0) (Some 2024) (Some 1) (Some 31) (Some 0) (Some 0) (Some 0)
             = Some 1709337600000"
    "Date_of_fields (fixed_offset 0) (Some 2024) (Some 2) (Some 1) (Some 0) (Some 0) (Some 0)
             = Some 1709251200000"
    "Date_of_fields (fixed_offset 0) (Some 2024) (Some 2) (Some 5) (Some 0) (Some 0) (Some 0)
             = Some 1709596800000"
    by (simp_all add: Date_of_fields_def MakeFullYear_def MakeDay_2024 monthStart_def
        DaysInYear_eval MakeDate_def MakeTime_def UTC_def TimeClip_def msPerDay_def maxTime_def)
  show ?thesis
    unfolding isDateInPeriod_def Let_def
    by (simp add: s index_def n d num_ge_def num_le_def)
qed

section \<open>getNextFridayThe13th\<close>

text \<open>
  C2. The claim: the scan goes on for a year from the argument. The code stops at
  \<^verbatim>\<open>new Date(a.getFullYear() + 1, 0, 0)\<close>, which is 31 December of the year of the
  argument. From 31 December 2024 it looks at that one day and returns \<^verbatim>\<open>undefined\<close>,
  although 13 June 2025, 164 days later, is a Friday.
\<close>

theorem getNextFridayThe13th_stops_at_end_of_year:
  "getNextFridayThe13th (fixed_offset 0) (Some 1735603200000) = Undefined
   \<and> getFullYear (fixed_offset 0) (Some 1735603200000) = Some 2024
   \<and> getMonth (fixed_offset 0) (Some 1735603200000) = Some 11
   \<and> getDate (fixed_offset 0) (Some 1735603200000) = Some 31
   \<and> getDay (fixed_offset 0) (Some (1735603200000 + 164 * msPerDay)) = Some 5
   \<and> getDate (fixed_offset 0) (Some (1735603200000 + 164 * msPerDay)) = Some 13"
proof -
  have f: "YearFromTime 1735603200000 = 2024 \<and> MonthFromTime 1735603200000 = 11
      \<and> DateFromTime 1735603200000 = 31"
    by (rule fields_of_day)
       (simp_all add: DaysInMonth_def DaysInYear_eval DayFromYear_eval monthStart_def Day_def
         msPerDay_def)
  have g: "YearFromTime (1735603200000 + 164 * msPerDay) = 2025
      \<and> MonthFromTime (1735603200000 + 164 * msPerDay) = 5
      \<and> DateFromTime (1735603200000 + 164 * msPerDay) = 13"
    by (rule fields_of_day)
       (simp_all add: DaysInMonth_def DaysInYear_eval DayFromYear_eval monthStart_def Day_def
         msPerDay_def)
  have b: "Date_ymd (fixed_offset 0) (num_add (getFullYear (fixed_offset 0) (Some 1735603200000)) (Some 1)) (Some 0) (Some 0)
      = Some 1735603200000"
    by (simp add: getFullYear_def LocalTime_def f num_add_def Date_ymd_Some MakeFullYear_def
        MakeDay_eq DayFromYear_eval monthStart_def TimeClip_def msPerDay_def maxTime_def)
  have w: "getDay (fixed_offset 0) (Some 1735603200000) = Some 2"
    by (simp add: getDay_Some WeekDay_def Day_def msPerDay_def)
  have n: "next_day (fixed_offset 0) (Some 1735603200000) = Some (1735603200000 + msPerDay)"
    by (rule next_day_ok) (simp_all add: msPerDay_def maxTime_def)
  have "getNextFridayThe13th_loop (fixed_offset 0) (Some 1735603200000) (Some (1735603200000 + msPerDay))
      = Undefined"
    by (subst getNextFridayThe13th_loop.simps) (simp add: num_le_def msPerDay_def)
  then have "getNextFridayThe13th_loop (fixed_offset 0) (Some 1735603200000) (Some 1735603200000) = Undefined"
    by (subst getNextFridayThe13th_loop.simps) (simp add: num_le_def w n num_eq_def)
  then have "getNextFridayThe13th (fixed_offset 0) (Some 1735603200000) = Undefined"
    by (simp add: getNextFridayThe13th_def b)
  moreover have "getDay (fixed_offset 0) (Some (1735603200000 + 164 * msPerDay)) = Some 5"
    by (simp add: getDay_Some WeekDay_def Day_def msPerDay_def)
  ultimately show ?thesis
    using f g by (simp add: getFullYear_def getMonth_def getDate_def LocalTime_def)
qed


section \<open>The functions on a store of objects\<close>

text \<open>
  In JavaScript a Date, a period \<^verbatim>\<open>{start, end}\<close> and an array are objects: a variable
  holds a reference, and \<^verbatim>\<open>i.setDate(...)\<close> and \<^verbatim>\<open>mass.push(...)\<close> change the object
  for everyone who holds it. This section models the module again with the objects in a
  store, to see what a caller can observe. Objects of the three kinds never alias each
  other, so the store keeps one list per kind, and a reference is an index into its list.
  Strings, numbers and booleans are values.
\<close>

type_synonym ref = nat

record store =
  dates :: "num list"
  periods :: "DatePeriod list"
  arrays :: "string list list"

text \<open>\<^verbatim>\<open>new Date(...)\<close> with time value \<open>t\<close>, and \<^verbatim>\<open>[]\<close>: a fresh object.\<close>

definition new_Date :: "num \<Rightarrow> store \<Rightarrow> ref \<times> store" where
  "new_Date t h = (length (dates h), h\<lparr>dates := dates h @ [t]\<rparr>)"

definition new_Array :: "store \<Rightarrow> ref \<times> store" where
  "new_Array h = (length (arrays h), h\<lparr>arrays := arrays h @ [[]]\<rparr>)"

text \<open>Reading an object; a reference to nothing reads as an Invalid Date, or as empty.\<close>

definition date_value :: "store \<Rightarrow> ref \<Rightarrow> num" where
  "date_value h r = (if r < length (dates h) then dates h ! r else None)"

definition period_value :: "store \<Rightarrow> ref \<Rightarrow> DatePeriod" where
  "period_value h r =
     (if r < length (periods h) then periods h ! r else \<lparr>start = [], finish = []\<rparr>)"

definition array_value :: "store \<Rightarrow> ref \<Rightarrow> string list" where
  "array_value h r = (if r < length (arrays h) then arrays h ! r else [])"

text \<open>\<^verbatim>\<open>i.setDate(i.getDate() + 1)\<close> and \<^verbatim>\<open>mass.push(s)\<close>: the object changes in place.\<close>

definition setDate_next :: "zone \<Rightarrow> ref \<Rightarrow> store \<Rightarrow> store" where
  "setDate_next tz i h =
     h\<lparr>dates := (dates h)[i := setDate tz (date_value h i)
                               (num_add (getDate tz (date_value h i)) (Some 1))]\<rparr>"

definition push :: "ref \<Rightarrow> string \<Rightarrow> store \<Rightarrow> store" where
  "push r s h = h\<lparr>arrays := (arrays h)[r := array_value h r @ [s]]\<rparr>"

text \<open>What a function returns: a value, or a reference to a Date or an array.\<close>

datatype returned =
    Number num
  | Fraction "rat option"
  | Integer int
  | Text string
  | Text_or_undefined "string option"
  | Boolean bool
  | Date_ref ref
  | Array_ref ref
  | Nothing

text \<open>
  The loops terminate because every step moves the Date to a later time, or invalidates
  it, and time values end at \<open>maxTime\<close>.
\<close>

definition days_left :: "num \<Rightarrow> nat" where
  "days_left x = (case x of None \<Rightarrow> 0 | Some t \<Rightarrow> nat (maxTime - t) + 1)"

lemma days_left_decreases:
  assumes "num_le x b"
  shows "days_left (next_day tz x) < days_left x"
proof -
  from assms obtain t where t: "x = Some t" by (auto simp: num_le_def split: option.splits)
  show ?thesis
  proof (cases "next_day tz x")
    case None
    then show ?thesis by (simp add: t days_left_def)
  next
    case (Some t')
    then have nd: "next_day tz (Some t) = Some t'" by (simp add: t)
    have "t < t'" "t' \<le> maxTime"
      using next_day_Some[OF nd] by simp_all
    then show ?thesis by (simp add: nd t days_left_def)
  qed
qed

lemma date_value_setDate_next:
  "num_le (date_value h i) b \<Longrightarrow> date_value (setDate_next tz i h) i = next_day tz (date_value h i)"
  by (auto simp: date_value_def setDate_next_def next_day_def num_le_def split: if_splits)

lemma date_value_push: "date_value (push r s h) i = date_value h i"
  by (simp add: date_value_def push_def)


subsection \<open>The fourteen functions, with their objects in the store\<close>

text \<open>
  Each function takes the store and returns what it returns together with the store it
  leaves behind. A Date or period argument is a reference. The calendar arithmetic on
  time values is that of the first model.
\<close>

definition dateToTimestamp_st :: "zone \<Rightarrow> string \<Rightarrow> store \<Rightarrow> returned \<times> store" where
  "dateToTimestamp_st tz date h =
     (case new_Date (Date_parse tz date) h of (a, h1) \<Rightarrow> (Number (date_value h1 a), h1))"

definition getTime_st :: "zone \<Rightarrow> ref \<Rightarrow> store \<Rightarrow> returned \<times> store" where
  "getTime_st tz date h =
     (case new_Date (date_value h date) h of (a, h1) \<Rightarrow>
        (let a1 = (if num_ge (getHours tz (date_value h1 a)) (Some 10)
                   then num_to_string (getHours tz (date_value h1 a))
                   else ''0'' @ num_to_string (getHours tz (date_value h1 a)));
             a2 = (if num_ge (getMinutes tz (date_value h1 a)) (Some 10)
                   then num_to_string (getMinutes tz (date_value h1 a))
                   else ''0'' @ num_to_string (getMinutes tz (date_value h1 a)));
             a3 = (if num_ge (getSeconds tz (date_value h1 a)) (Some 10)
                   then num_to_string (getSeconds tz (date_value h1 a))
                   else ''0'' @ num_to_string (getSeconds tz (date_value h1 a)))
         in (Text (a1 @ '':'' @ a2 @ '':'' @ a3), h1)))"

definition getDayName_st :: "zone \<Rightarrow> string \<Rightarrow> store \<Rightarrow> returned \<times> store" where
  "getDayName_st tz date h =
     (case new_Date (Date_parse tz date) h of (a, h1) \<Rightarrow>
        (let mass = [1 \<mapsto> ''Monday'', 2 \<mapsto> ''Tuesday'', 3 \<mapsto> ''Wednesday'',
                     4 \<mapsto> ''Thursday'', 5 \<mapsto> ''Friday'', 6 \<mapsto> ''Saturday'',
                     0 \<mapsto> ''Sunday''];
             a2 = getDay tz (date_value h1 a)
         in (Text_or_undefined (case a2 of None \<Rightarrow> None | Some k \<Rightarrow> mass k), h1)))"

function getNextFriday_loop_st ::
  "zone \<Rightarrow> ref \<Rightarrow> ref \<Rightarrow> ref \<Rightarrow> int \<Rightarrow> store \<Rightarrow> returned \<times> store" where
  "getNextFriday_loop_st tz a b i n h =
     (if num_le (date_value h i) (date_value h b) then
        (if num_eq (getDay tz (date_value h i)) (Some 5) \<and> n > 0 then (Date_ref i, h)
         else getNextFriday_loop_st tz a b i (n + 1) (setDate_next tz i h))
      else (Date_ref a, h))"
  by pat_completeness auto
termination
  by (relation "measure (\<lambda>(tz, a, b, i, n, h). days_left (date_value h i))")
     (simp_all add: date_value_setDate_next days_left_decreases)

declare getNextFriday_loop_st.simps [simp del]

definition getNextFriday_st :: "zone \<Rightarrow> ref \<Rightarrow> store \<Rightarrow> returned \<times> store" where
  "getNextFriday_st tz date h =
     (case new_Date (date_value h date) h of (a, h1) \<Rightarrow>
      (case new_Date (Date_ymd tz (getFullYear tz (date_value h1 a))
                        (getMonth tz (date_value h1 a))
                        (num_add (getDate tz (date_value h1 a)) (Some 7))) h1 of (b, h2) \<Rightarrow>
         getNextFriday_loop_st tz a b a 0 h2))"

definition getCountDaysInMonth_st :: "zone \<Rightarrow> int \<Rightarrow> int \<Rightarrow> store \<Rightarrow> returned \<times> store" where
  "getCountDaysInMonth_st tz month year h =
     (case new_Date (Date_of_fields tz (Some year) (Some month) (Some 0) (Some 0) (Some 0)
                       (Some 0)) h of (a, h1) \<Rightarrow>
        (Number (getDate tz (date_value h1 a)), h1))"

definition getCountDaysOnPeriod_st ::
  "zone \<Rightarrow> string \<Rightarrow> string \<Rightarrow> store \<Rightarrow> returned \<times> store" where
  "getCountDaysOnPeriod_st tz dateStart dateEnd h =
     (case new_Date (Date_parse tz dateStart) h of (a, h1) \<Rightarrow>
      (case new_Date (Date_parse tz dateEnd) h1 of (b, h2) \<Rightarrow>
        (let summ = map_option (\<lambda>x. rat_of_int x / 1000 / 60 / 60 / 24)
                      (num_sub (date_value h2 b) (date_value h2 a))
         in (Fraction (map_option (\<lambda>x. x + 1) summ), h2))))"

definition isDateInPeriod_st :: "zone \<Rightarrow> string \<Rightarrow> ref \<Rightarrow> store \<Rightarrow> returned \<times> store" where
  "isDateInPeriod_st tz date period h =
     (let arr1 = split_on CHR ''-'' date;
          arr2 = split_on CHR ''-'' (start (period_value h period));
          arr3 = split_on CHR ''-'' (finish (period_value h period))
      in case new_Date (Date_of_fields tz (ToNumber (index arr1 0)) (ToNumber (index arr1 1))
                          (ToNumber (index arr1 2)) (Some 0) (Some 0) (Some 0)) h of (a, h1) \<Rightarrow>
         (case new_Date (Date_of_fields tz (ToNumber (index arr2 0)) (ToNumber (index arr2 1))
                          (ToNumber (index arr2 2)) (Some 0) (Some 0) (Some 0)) h1 of (b, h2) \<Rightarrow>
         (case new_Date (Date_of_fields tz (ToNumber (index arr3 0)) (ToNumber (index arr3 1))
                          (ToNumber (index arr3 2)) (Some 0) (Some 0) (Some 0)) h2 of (c, h3) \<Rightarrow>
            (Boolean (num_ge (date_value h3 a) (date_value h3 b)
                      \<and> num_le (date_value h3 a) (date_value h3 c)), h3))))"

definition formatDate_st :: "zone \<Rightarrow> string \<Rightarrow> store \<Rightarrow> returned \<times> store" where
  "formatDate_st tz date h =
     (case new_Date (Date_parse tz date) h of (r, h1) \<Rightarrow>
        (let a = date_value h1 r;
             a2 = (if num_ge (getUTCHours a) (Some 12) then ''PM'' else ''AM'');
             a3 = (if num_ge (getUTCMinutes a) (Some 9) then num_to_string (getUTCMinutes a)
                   else ''0'' @ num_to_string (getUTCMinutes a));
             a4 = (if num_ge (getUTCSeconds a) (Some 9) then num_to_string (getUTCSeconds a)
                   else ''0'' @ num_to_string (getUTCSeconds a));
             b = (case formatDate_branch a of
                    PM_unadjusted \<Rightarrow> num_to_string (getUTCHours a) @ '':'' @ a3 @ '':'' @ a4
                  | PM_minus_12 \<Rightarrow>
                      num_to_string (num_sub (getUTCHours a) (Some 12)) @ '':'' @ a3 @ '':'' @ a4
                  | AM_unadjusted \<Rightarrow> num_to_string (getUTCHours a) @ '':'' @ a3 @ '':'' @ a4)
         in (Text (num_to_string (num_add (getUTCMonth a) (Some 1)) @ ''/''
                   @ num_to_string (getUTCDate a) @ ''/''
                   @ num_to_string (getUTCFullYear a) @ '', '' @ b @ '' '' @ a2), h1)))"

function getCountWeekendsInMonth_loop_st ::
  "zone \<Rightarrow> ref \<Rightarrow> ref \<Rightarrow> int \<Rightarrow> store \<Rightarrow> returned \<times> store" where
  "getCountWeekendsInMonth_loop_st tz b i summ h =
     (if num_le (date_value h i) (date_value h b) then
        getCountWeekendsInMonth_loop_st tz b i
          (if num_eq (getDay tz (date_value h i)) (Some 0)
              \<or> num_eq (getDay tz (date_value h i)) (Some 6)
           then summ + 1 else summ)
          (setDate_next tz i h)
      else (Integer summ, h))"
  by pat_completeness auto
termination
  by (relation "measure (\<lambda>(tz, b, i, summ, h). days_left (date_value h i))")
     (simp_all add: date_value_setDate_next days_left_decreases)

declare getCountWeekendsInMonth_loop_st.simps [simp del]

definition getCountWeekendsInMonth_st :: "zone \<Rightarrow> int \<Rightarrow> int \<Rightarrow> store \<Rightarrow> returned \<times> store" where
  "getCountWeekendsInMonth_st tz month year h =
     (case new_Date (Date_ymd tz (Some year) (Some (month - 1)) (Some 1)) h of (a, h1) \<Rightarrow>
      (case new_Date (Date_ymd tz (Some year) (Some month) (Some 0)) h1 of (b, h2) \<Rightarrow>
         getCountWeekendsInMonth_loop_st tz b a 0 h2))"

definition getWeekNumberByDate_st :: "zone \<Rightarrow> ref \<Rightarrow> store \<Rightarrow> returned \<times> store" where
  "getWeekNumberByDate_st tz date h =
     (case new_Date (date_value h date) h of (a, h1) \<Rightarrow>
        (let s = getFullYear tz (date_value h1 a)
         in case new_Date (Date_ymd tz s (Some 0) (Some 0)) h1 of (b, h2) \<Rightarrow>
              (Number (map_option (\<lambda>x. \<lceil>rat_of_int x / 1000 / 60 / 60 / 24 / 7\<rceil>)
                         (num_sub (date_value h2 a) (date_value h2 b))), h2)))"

function getNextFridayThe13th_loop_st ::
  "zone \<Rightarrow> ref \<Rightarrow> ref \<Rightarrow> store \<Rightarrow> returned \<times> store" where
  "getNextFridayThe13th_loop_st tz b i h =
     (if num_le (date_value h i) (date_value h b) then
        (let a4 = getDay tz (date_value h i); a5 = getDate tz (date_value h i)
         in if num_eq a4 (Some 5) \<and> num_eq a5 (Some 13)
            then (case new_Date (Date_ymd tz (getFullYear tz (date_value h i))
                                   (getMonth tz (date_value h i)) a5) h of
                    (r, h1) \<Rightarrow> (Date_ref r, h1))
            else getNextFridayThe13th_loop_st tz b i (setDate_next tz i h))
      else (Nothing, h))"
  by pat_completeness auto
termination
  by (relation "measure (\<lambda>(tz, b, i, h). days_left (date_value h i))")
     (simp_all add: date_value_setDate_next days_left_decreases)

declare getNextFridayThe13th_loop_st.simps [simp del]

definition getNextFridayThe13th_st :: "zone \<Rightarrow> ref \<Rightarrow> store \<Rightarrow> returned \<times> store" where
  "getNextFridayThe13th_st tz date h =
     (case new_Date (date_value h date) h of (a, h1) \<Rightarrow>
      (case new_Date (Date_ymd tz (num_add (getFullYear tz (date_value h1 a)) (Some 1))
                        (Some 0) (Some 0)) h1 of (b, h2) \<Rightarrow>
         getNextFridayThe13th_loop_st tz b a h2))"

definition getQuarter_st :: "zone \<Rightarrow> ref \<Rightarrow> store \<Rightarrow> returned \<times> store" where
  "getQuarter_st tz date h =
     (case new_Date (date_value h date) h of (a, h1) \<Rightarrow>
        (let b = getMonth tz (date_value h1 a)
         in (Integer (if num_ge b (Some 0) \<and> num_le b (Some 2) then 1
                      else if num_ge b (Some 3) \<and> num_le b (Some 5) then 2
                      else if num_ge b (Some 6) \<and> num_le b (Some 8) then 3
                      else 4), h1)))"

function getWorkSchedule_loop_st ::
  "zone \<Rightarrow> int \<Rightarrow> int \<Rightarrow> ref \<Rightarrow> ref \<Rightarrow> ref \<Rightarrow> int \<Rightarrow> store \<Rightarrow> returned \<times> store" where
  "getWorkSchedule_loop_st tz countWorkDays countOffDays bb mass i n2 h =
     (if num_le (date_value h i) (date_value h bb) then
        (let entry = getWorkSchedule_entry tz (date_value h i)
         in if n2 \<le> countWorkDays then
              getWorkSchedule_loop_st tz countWorkDays countOffDays bb mass i (n2 + 1)
                (setDate_next tz i (push mass entry h))
            else if n2 > countWorkDays + countOffDays then
              getWorkSchedule_loop_st tz countWorkDays countOffDays bb mass i 2
                (setDate_next tz i (push mass entry h))
            else if n2 > countWorkDays \<and> n2 \<le> countWorkDays + countOffDays then
              getWorkSchedule_loop_st tz countWorkDays countOffDays bb mass i (n2 + 1)
                (setDate_next tz i h)
            else
              getWorkSchedule_loop_st tz countWorkDays countOffDays bb mass i n2
                (setDate_next tz i h))
      else (Array_ref mass, h))"
  by pat_completeness auto
termination
  by (relation "measure (\<lambda>(tz, w, off, bb, mass, i, n2, h). days_left (date_value h i))")
     (simp_all add: date_value_setDate_next date_value_push days_left_decreases)

declare getWorkSchedule_loop_st.simps [simp del]

definition getWorkSchedule_st :: "zone \<Rightarrow> ref \<Rightarrow> int \<Rightarrow> int \<Rightarrow> store \<Rightarrow> returned \<times> store" where
  "getWorkSchedule_st tz period countWorkDays countOffDays h =
     (let a = split_on CHR ''-'' (start (period_value h period));
          b = split_on CHR ''-'' (finish (period_value h period))
      in case new_Date (Date_ymd tz (ToNumber (index a 2))
                          (num_sub (ToNumber (index a 1)) (Some 1)) (ToNumber (index a 0))) h of
           (aa, h1) \<Rightarrow>
         (case new_Date (Date_ymd tz (ToNumber (index b 2))
                          (num_sub (ToNumber (index b 1)) (Some 1)) (ToNumber (index b 0))) h1 of
           (bb, h2) \<Rightarrow>
         (case new_Array h2 of (mass, h3) \<Rightarrow>
            getWorkSchedule_loop_st tz countWorkDays countOffDays bb mass aa 1 h3)))"

definition isLeapYear_st :: "zone \<Rightarrow> ref \<Rightarrow> store \<Rightarrow> returned \<times> store" where
  "isLeapYear_st tz date h =
     (case new_Date (date_value h date) h of (a, h1) \<Rightarrow>
        (Boolean (num_eq (num_rem (getFullYear tz (date_value h1 a)) (Some 4)) (Some 0)), h1))"


subsection \<open>Calls and what the caller sees\<close>

datatype invocation =
    Call_dateToTimestamp string
  | Call_getTime ref
  | Call_getDayName string
  | Call_getNextFriday ref
  | Call_getCountDaysInMonth int int
  | Call_getCountDaysOnPeriod string string
  | Call_isDateInPeriod string ref
  | Call_formatDate string
  | Call_getCountWeekendsInMonth int int
  | Call_getWeekNumberByDate ref
  | Call_getNextFridayThe13th ref
  | Call_getQuarter ref
  | Call_getWorkSchedule ref int int
  | Call_isLeapYear ref

fun invoke :: "zone \<Rightarrow> invocation \<Rightarrow> store \<Rightarrow> returned \<times> store" where
  "invoke tz (Call_dateToTimestamp date) h = dateToTimestamp_st tz date h"
| "invoke tz (Call_getTime date) h = getTime_st tz date h"
| "invoke tz (Call_getDayName date) h = getDayName_st tz date h"
| "invoke tz (Call_getNextFriday date) h = getNextFriday_st tz date h"
| "invoke tz (Call_getCountDaysInMonth month year) h = getCountDaysInMonth_st tz month year h"
| "invoke tz (Call_getCountDaysOnPeriod dateStart dateEnd) h =
     getCountDaysOnPeriod_st tz dateStart dateEnd h"
| "invoke tz (Call_isDateInPeriod date period) h = isDateInPeriod_st tz date period h"
| "invoke tz (Call_formatDate date) h = formatDate_st tz date h"
| "invoke tz (Call_getCountWeekendsInMonth month year) h =
     getCountWeekendsInMonth_st tz month year h"
| "invoke tz (Call_getWeekNumberByDate date) h = getWeekNumberByDate_st tz date h"
| "invoke tz (Call_getNextFridayThe13th date) h = getNextFridayThe13th_st tz date h"
| "invoke tz (Call_getQuarter date) h = getQuarter_st tz date h"
| "invoke tz (Call_getWorkSchedule period countWorkDays countOffDays) h =
     getWorkSchedule_st tz period countWorkDays countOffDays h"
| "invoke tz (Call_isLeapYear date) h = isLeapYear_st tz date h"

text \<open>The arguments of a call are objects of the store.\<close>

fun args_in_store :: "store \<Rightarrow> invocation \<Rightarrow> bool" where
  "args_in_store h (Call_getTime date) = (date < length (dates h))"
| "args_in_store h (Call_getNextFriday date) = (date < length (dates h))"
| "args_in_store h (Call_isDateInPeriod date period) = (period < length (periods h))"
| "args_in_store h (Call_getWeekNumberByDate date) = (date < length (dates h))"
| "args_in_store h (Call_getNextFridayThe13th date) = (date < length (dates h))"
| "args_in_store h (Call_getQuarter date) = (date < length (dates h))"
| "args_in_store h (Call_getWorkSchedule period countWorkDays countOffDays) =
     (period < length (periods h))"
| "args_in_store h (Call_isLeapYear date) = (date < length (dates h))"
| "args_in_store h c = True"

text \<open>
  What the caller sees of a result: a value as it is, a Date or an array through its
  reference.
\<close>

datatype observed =
    Seen_number num
  | Seen_fraction "rat option"
  | Seen_integer int
  | Seen_text string
  | Seen_text_or_undefined "string option"
  | Seen_boolean bool
  | Seen_date num
  | Seen_array "string list"
  | Seen_nothing

fun observe :: "store \<Rightarrow> returned \<Rightarrow> observed" where
  "observe h (Number x) = Seen_number x"
| "observe h (Fraction x) = Seen_fraction x"
| "observe h (Integer x) = Seen_integer x"
| "observe h (Text x) = Seen_text x"
| "observe h (Text_or_undefined x) = Seen_text_or_undefined x"
| "observe h (Boolean x) = Seen_boolean x"
| "observe h (Date_ref r) = Seen_date (date_value h r)"
| "observe h (Array_ref r) = Seen_array (array_value h r)"
| "observe h Nothing = Seen_nothing"

text \<open>
  The result of a call according to the first model, which works on the values of the
  arguments.
\<close>

fun result_of :: "zone \<Rightarrow> store \<Rightarrow> invocation \<Rightarrow> observed" where
  "result_of tz h (Call_dateToTimestamp date) = Seen_number (dateToTimestamp tz date)"
| "result_of tz h (Call_getTime date) = Seen_text (getTime tz (date_value h date))"
| "result_of tz h (Call_getDayName date) = Seen_text_or_undefined (getDayName tz date)"
| "result_of tz h (Call_getNextFriday date) = Seen_date (getNextFriday tz (date_value h date))"
| "result_of tz h (Call_getCountDaysInMonth month year) =
     Seen_number (getCountDaysInMonth tz month year)"
| "result_of tz h (Call_getCountDaysOnPeriod dateStart dateEnd) =
     Seen_fraction (getCountDaysOnPeriod tz dateStart dateEnd)"
| "result_of tz h (Call_isDateInPeriod date period) =
     Seen_boolean (isDateInPeriod tz date (period_value h period))"
| "result_of tz h (Call_formatDate date) = Seen_text (formatDate tz date)"
| "result_of tz h (Call_getCountWeekendsInMonth month year) =
     Seen_integer (getCountWeekendsInMonth tz month year)"
| "result_of tz h (Call_getWeekNumberByDate date) =
     Seen_number (getWeekNumberByDate tz (date_value h date))"
| "result_of tz h (Call_getNextFridayThe13th date) =
     (case getNextFridayThe13th tz (date_value h date) of
        Undefined \<Rightarrow> Seen_nothing
      | DateObject t \<Rightarrow> Seen_date t)"
| "result_of tz h (Call_getQuarter date) = Seen_integer (getQuarter tz (date_value h date))"
| "result_of tz h (Call_getWorkSchedule period countWorkDays countOffDays) =
     Seen_array (getWorkSchedule tz (period_value h period) countWorkDays countOffDays)"
| "result_of tz h (Call_isLeapYear date) = Seen_boolean (isLeapYear tz (date_value h date))"

text \<open>A call leaves every object of the store as it was, and may add new ones.\<close>

definition extends :: "store \<Rightarrow> store \<Rightarrow> bool" where
  "extends h h' \<longleftrightarrow>
     (\<exists>ds. dates h' = dates h @ ds) \<and> periods h' = periods h \<and> (\<exists>xs. arrays h' = arrays h @ xs)"

lemma extends_refl: "extends h h"
  by (simp add: extends_def)

lemma extends_trans: "extends h h1 \<Longrightarrow> extends h1 h2 \<Longrightarrow> extends h h2"
  by (auto simp: extends_def)

lemma extends_new_Date: "new_Date t h = (r, h') \<Longrightarrow> extends h h'"
  by (auto simp: new_Date_def extends_def)

lemma extends_new_Array: "new_Array h = (r, h') \<Longrightarrow> extends h h'"
  by (auto simp: new_Array_def extends_def)

lemma date_value_new_Date:
  "new_Date t h = (r, h') \<Longrightarrow> date_value h' r = t"
  by (auto simp: new_Date_def date_value_def)

lemma date_value_extends:
  "extends h h' \<Longrightarrow> r < length (dates h) \<Longrightarrow> date_value h' r = date_value h r"
  by (auto simp: extends_def date_value_def nth_append)

lemma period_value_extends: "extends h h' \<Longrightarrow> period_value h' r = period_value h r"
  by (auto simp: extends_def period_value_def)

lemma array_value_extends:
  "extends h h' \<Longrightarrow> r < length (arrays h) \<Longrightarrow> array_value h' r = array_value h r"
  by (auto simp: extends_def array_value_def nth_append)


lemma setDate_next_eq:
  assumes "i < length (dates h)"
  shows "setDate_next tz i h = h\<lparr>dates := (dates h)[i := next_day tz (date_value h i)]\<rparr>"
  using assms by (simp add: setDate_next_def next_day_def)

lemma store_update_same:
  assumes "i < length (dates h)"
  shows "h\<lparr>dates := (dates h)[i := date_value h i]\<rparr> = h"
  using assms by (simp add: date_value_def)

lemma date_value_update:
  "date_value (h\<lparr>dates := (dates h)[i := v]\<rparr>) r =
     (if r = i \<and> i < length (dates h) then v else date_value h r)"
  by (auto simp: date_value_def)

lemma getNextFriday_loop_st_eq:
  assumes "x = date_value h i" "y = date_value h b" "i < length (dates h)" "i \<noteq> b"
  shows "getNextFriday_loop_st tz i b i n h
         = (Date_ref i, h\<lparr>dates := (dates h)[i := getNextFriday_loop tz y x n]\<rparr>)"
  using assms
proof (induction tz y x n arbitrary: h rule: getNextFriday_loop.induct)
  case (1 tz y x n)
  show ?case
  proof (cases "num_le x y \<and> \<not> (num_eq (getDay tz x) (Some 5) \<and> n > 0)")
    case True
    define h2 where "h2 = setDate_next tz i h"
    have h2: "h2 = h\<lparr>dates := (dates h)[i := next_day tz x]\<rparr>"
      using "1.prems" by (simp add: h2_def setDate_next_eq)
    have "getNextFriday_loop_st tz i b i (n + 1) h2
        = (Date_ref i, h2\<lparr>dates := (dates h2)[i := getNextFriday_loop tz y (next_day tz x) (n + 1)]\<rparr>)"
      using True "1.prems" by (intro "1.IH") (auto simp: h2 date_value_update)
    moreover have "getNextFriday_loop_st tz i b i n h = getNextFriday_loop_st tz i b i (n + 1) h2"
      using True "1.prems"
      by (subst getNextFriday_loop_st.simps) (auto simp: h2_def)
    moreover have "getNextFriday_loop tz y x n = getNextFriday_loop tz y (next_day tz x) (n + 1)"
      using True by (subst getNextFriday_loop.simps) auto
    ultimately show ?thesis by (simp add: h2)
  next
    case False
    then have "getNextFriday_loop_st tz i b i n h = (Date_ref i, h)"
      using "1.prems" by (subst getNextFriday_loop_st.simps) auto
    moreover have "getNextFriday_loop tz y x n = x"
      using False by (subst getNextFriday_loop.simps) auto
    ultimately show ?thesis using "1.prems" by (simp add: store_update_same)
  qed
qed

lemma getCountWeekendsInMonth_loop_st_eq:
  assumes "x = date_value h i" "y = date_value h b" "i < length (dates h)" "i \<noteq> b"
  shows "\<exists>v. getCountWeekendsInMonth_loop_st tz b i summ h
         = (Integer (getCountWeekendsInMonth_loop tz y x summ), h\<lparr>dates := (dates h)[i := v]\<rparr>)"
  using assms
proof (induction tz y x summ arbitrary: h rule: getCountWeekendsInMonth_loop.induct)
  case (1 tz y x summ)
  show ?case
  proof (cases "num_le x y")
    case True
    define h2 where "h2 = setDate_next tz i h"
    define s2 where "s2 = (if num_eq (getDay tz x) (Some 0) \<or> num_eq (getDay tz x) (Some 6)
           then summ + 1 else summ)"
    have h2: "h2 = h\<lparr>dates := (dates h)[i := next_day tz x]\<rparr>"
      using "1.prems" by (simp add: h2_def setDate_next_eq)
    have "\<exists>v. getCountWeekendsInMonth_loop_st tz b i s2 h2
        = (Integer (getCountWeekendsInMonth_loop tz y (next_day tz x) s2),
           h2\<lparr>dates := (dates h2)[i := v]\<rparr>)"
      unfolding s2_def using True "1.prems" by (intro "1.IH") (auto simp: h2 date_value_update)
    then obtain v where v: "getCountWeekendsInMonth_loop_st tz b i s2 h2
        = (Integer (getCountWeekendsInMonth_loop tz y (next_day tz x) s2),
           h2\<lparr>dates := (dates h2)[i := v]\<rparr>)" by blast
    have "getCountWeekendsInMonth_loop_st tz b i summ h
        = getCountWeekendsInMonth_loop_st tz b i s2 h2"
      using True "1.prems"
      by (subst getCountWeekendsInMonth_loop_st.simps) (simp add: h2_def s2_def)
    moreover have "getCountWeekendsInMonth_loop tz y x summ
        = getCountWeekendsInMonth_loop tz y (next_day tz x) s2"
      using True by (subst getCountWeekendsInMonth_loop.simps) (simp add: s2_def)
    ultimately show ?thesis using v by (intro exI[of _ v]) (simp add: h2)
  next
    case False
    then have "getCountWeekendsInMonth_loop_st tz b i summ h = (Integer summ, h)"
      using "1.prems" by (subst getCountWeekendsInMonth_loop_st.simps) auto
    moreover have "getCountWeekendsInMonth_loop tz y x summ = summ"
      using False by (subst getCountWeekendsInMonth_loop.simps) auto
    ultimately show ?thesis
      using "1.prems" by (intro exI[of _ "date_value h i"]) (simp add: store_update_same)
  qed
qed


lemma getNextFridayThe13th_loop_st_eq:
  assumes "x = date_value h i" "y = date_value h b" "i < length (dates h)" "i \<noteq> b"
  shows "\<exists>v. getNextFridayThe13th_loop_st tz b i h =
           (case getNextFridayThe13th_loop tz y x of
              Undefined \<Rightarrow> (Nothing, h\<lparr>dates := (dates h)[i := v]\<rparr>)
            | DateObject t \<Rightarrow>
                (Date_ref (length (dates h)), h\<lparr>dates := (dates h)[i := v] @ [t]\<rparr>))"
  using assms
proof (induction tz y x arbitrary: h rule: getNextFridayThe13th_loop.induct)
  case (1 tz y x)
  define found where "found \<longleftrightarrow> num_eq (getDay tz x) (Some 5) \<and> num_eq (getDate tz x) (Some 13)"
  show ?case
  proof (cases "num_le x y")
    case False
    then have "getNextFridayThe13th_loop_st tz b i h = (Nothing, h)"
      using "1.prems" by (subst getNextFridayThe13th_loop_st.simps) auto
    moreover have "getNextFridayThe13th_loop tz y x = Undefined"
      using False by (subst getNextFridayThe13th_loop.simps) auto
    ultimately show ?thesis
      using "1.prems" by (intro exI[of _ "date_value h i"]) (simp add: store_update_same)
  next
    case le: True
    show ?thesis
    proof (cases found)
      case True
      define t where "t = Date_ymd tz (getFullYear tz x) (getMonth tz x) (getDate tz x)"
      have "getNextFridayThe13th_loop_st tz b i h
          = (Date_ref (length (dates h)), h\<lparr>dates := dates h @ [t]\<rparr>)"
        using le True "1.prems"
        by (subst getNextFridayThe13th_loop_st.simps)
           (simp add: found_def Let_def new_Date_def t_def)
      moreover have "getNextFridayThe13th_loop tz y x = DateObject t"
        using le True
        by (subst getNextFridayThe13th_loop.simps) (simp add: found_def Let_def t_def)
      ultimately show ?thesis
        using "1.prems" by (intro exI[of _ "date_value h i"]) (simp add: date_value_def)
    next
      case False
      define h2 where "h2 = setDate_next tz i h"
      have h2: "h2 = h\<lparr>dates := (dates h)[i := next_day tz x]\<rparr>"
        using "1.prems" by (simp add: h2_def setDate_next_eq)
      have "\<exists>v. getNextFridayThe13th_loop_st tz b i h2 =
           (case getNextFridayThe13th_loop tz y (next_day tz x) of
              Undefined \<Rightarrow> (Nothing, h2\<lparr>dates := (dates h2)[i := v]\<rparr>)
            | DateObject t \<Rightarrow>
                (Date_ref (length (dates h2)), h2\<lparr>dates := (dates h2)[i := v] @ [t]\<rparr>))"
        using le False "1.prems"
        by (intro "1.IH") (auto simp: h2 date_value_update found_def)
      then obtain v where v: "getNextFridayThe13th_loop_st tz b i h2 =
           (case getNextFridayThe13th_loop tz y (next_day tz x) of
              Undefined \<Rightarrow> (Nothing, h2\<lparr>dates := (dates h2)[i := v]\<rparr>)
            | DateObject t \<Rightarrow>
                (Date_ref (length (dates h2)), h2\<lparr>dates := (dates h2)[i := v] @ [t]\<rparr>))"
        by blast
      have "getNextFridayThe13th_loop_st tz b i h = getNextFridayThe13th_loop_st tz b i h2"
        using le False "1.prems"
        by (subst getNextFridayThe13th_loop_st.simps) (auto simp: found_def Let_def h2_def)
      moreover have "getNextFridayThe13th_loop tz y x
          = getNextFridayThe13th_loop tz y (next_day tz x)"
        using le False
        by (subst getNextFridayThe13th_loop.simps) (auto simp: found_def Let_def)
      ultimately show ?thesis
        using v by (intro exI[of _ v]) (simp add: h2 split: date_or_undefined.splits)
    qed
  qed
qed

lemma array_value_update:
  "array_value (h\<lparr>arrays := (arrays h)[m := xs]\<rparr>) r =
     (if r = m \<and> m < length (arrays h) then xs else array_value h r)"
  by (auto simp: array_value_def)

lemma getWorkSchedule_loop_st_eq:
  assumes "x = date_value h i" "y = date_value h b" "i < length (dates h)" "i \<noteq> b"
    and "xs = array_value h mass" "mass < length (arrays h)" "st = (n2, xs)"
  shows "\<exists>v. getWorkSchedule_loop_st tz w off b mass i n2 h
         = (Array_ref mass,
            h\<lparr>dates := (dates h)[i := v],
              arrays := (arrays h)[mass := getWorkSchedule_loop tz w off y x st]\<rparr>)"
  using assms
proof (induction tz w off y x st arbitrary: h n2 xs rule: getWorkSchedule_loop.induct)
  case (1 tz w off y x st)
  show ?case
  proof (cases "num_le x y")
    case False
    then have "getWorkSchedule_loop_st tz w off b mass i n2 h = (Array_ref mass, h)"
      using "1.prems" by (subst getWorkSchedule_loop_st.simps) auto
    moreover have "getWorkSchedule_loop tz w off y x st = xs"
      using False "1.prems" by (subst getWorkSchedule_loop.simps) auto
    moreover have "h\<lparr>dates := (dates h)[i := date_value h i],
        arrays := (arrays h)[mass := array_value h mass]\<rparr> = h"
      using "1.prems" by (simp add: date_value_def array_value_def)
    ultimately show ?thesis
      using "1.prems" by (intro exI[of _ "date_value h i"]) simp
  next
    case True
    define entry where "entry = getWorkSchedule_entry tz x"
    define st' where "st' = getWorkSchedule_body w off entry st"
    define emit where "emit \<longleftrightarrow> n2 \<le> w \<or> n2 > w + off"
    define h2 where "h2 = setDate_next tz i (if emit then push mass entry h else h)"
    have st': "st' = (fst st', if emit then xs @ [entry] else xs)"
      using "1.prems" by (auto simp: st'_def getWorkSchedule_body_def emit_def Let_def)
    have h2: "h2 = h\<lparr>dates := (dates h)[i := next_day tz x],
        arrays := (arrays h)[mass := (if emit then xs @ [entry] else xs)]\<rparr>"
      using "1.prems"
      by (auto simp: h2_def setDate_next_def next_day_def push_def date_value_def array_value_def)
    have step: "getWorkSchedule_loop_st tz w off b mass i n2 h
        = getWorkSchedule_loop_st tz w off b mass i (fst st') h2"
      using True "1.prems"
      by (subst getWorkSchedule_loop_st.simps)
         (auto simp: Let_def entry_def st'_def getWorkSchedule_body_def emit_def h2_def)
    have "\<exists>v. getWorkSchedule_loop_st tz w off b mass i (fst st') h2
         = (Array_ref mass,
            h2\<lparr>dates := (dates h2)[i := v],
               arrays := (arrays h2)[mass := getWorkSchedule_loop tz w off y (next_day tz x) st']\<rparr>)"
    proof (rule "1.IH"[OF True, folded entry_def, folded st'_def])
      show "next_day tz x = date_value h2 i" using "1.prems" by (simp add: h2 date_value_def)
      show "y = date_value h2 b" using "1.prems" by (auto simp: h2 date_value_def)
      show "i < length (dates h2)" using "1.prems" by (simp add: h2)
      show "i \<noteq> b" by fact
      show "(if emit then xs @ [entry] else xs) = array_value h2 mass"
        using "1.prems" by (simp add: h2 array_value_def)
      show "mass < length (arrays h2)" using "1.prems" by (simp add: h2)
      show "st' = (fst st', if emit then xs @ [entry] else xs)" by (rule st')
    qed
    then obtain v where v: "getWorkSchedule_loop_st tz w off b mass i (fst st') h2
         = (Array_ref mass,
            h2\<lparr>dates := (dates h2)[i := v],
               arrays := (arrays h2)[mass := getWorkSchedule_loop tz w off y (next_day tz x) st']\<rparr>)"
      by blast
    have "getWorkSchedule_loop tz w off y x st
        = getWorkSchedule_loop tz w off y (next_day tz x) st'"
      using True by (subst getWorkSchedule_loop.simps) (simp add: st'_def entry_def)
    then show ?thesis
      using v step by (intro exI[of _ v]) (simp add: h2)
  qed
qed


lemma dates_update_extends:
  assumes "dates h' = (dates h @ ds)[i := v] @ es" "length (dates h) \<le> i"
    and "periods h' = periods h" "arrays h' = arrays h @ xs"
  shows "extends h h'"
  using assms by (auto simp: extends_def list_update_append)


lemma date_value_appended:
  "date_value (h\<lparr>dates := dates h @ t # ds\<rparr>) (length (dates h)) = t"
  "date_value (h\<lparr>dates := dates h @ t # u # ds\<rparr>) (Suc (length (dates h))) = u"
  "date_value (h\<lparr>dates := dates h @ t # u # v # ds\<rparr>) (Suc (Suc (length (dates h)))) = v"
  by (simp_all add: date_value_def nth_append)

lemma extends_appended: "extends h (h\<lparr>dates := dates h @ ds\<rparr>)"
  by (simp add: extends_def)

lemma run_dateToTimestamp:
  "dateToTimestamp_st tz date h = (r, h') \<Longrightarrow>
     extends h h' \<and> observe h' r = Seen_number (dateToTimestamp tz date)"
  by (auto simp: dateToTimestamp_st_def dateToTimestamp_def new_Date_def date_value_appended extends_appended Let_def)

lemma run_getTime:
  "getTime_st tz date h = (r, h') \<Longrightarrow>
     extends h h' \<and> observe h' r = Seen_text (getTime tz (date_value h date))"
  by (auto simp: getTime_st_def getTime_def new_Date_def date_value_appended extends_appended Let_def)

lemma run_getDayName:
  "getDayName_st tz date h = (r, h') \<Longrightarrow>
     extends h h' \<and> observe h' r = Seen_text_or_undefined (getDayName tz date)"
  by (auto simp: getDayName_st_def getDayName_def new_Date_def date_value_appended extends_appended Let_def)

lemma run_getCountDaysInMonth:
  "getCountDaysInMonth_st tz month year h = (r, h') \<Longrightarrow>
     extends h h' \<and> observe h' r = Seen_number (getCountDaysInMonth tz month year)"
  by (auto simp: getCountDaysInMonth_st_def getCountDaysInMonth_def new_Date_def date_value_appended extends_appended Let_def)

lemma run_getCountDaysOnPeriod:
  "getCountDaysOnPeriod_st tz dateStart dateEnd h = (r, h') \<Longrightarrow>
     extends h h' \<and> observe h' r = Seen_fraction (getCountDaysOnPeriod tz dateStart dateEnd)"
  by (auto simp: getCountDaysOnPeriod_st_def getCountDaysOnPeriod_def new_Date_def date_value_appended extends_appended Let_def)

lemma run_isDateInPeriod:
  "isDateInPeriod_st tz date period h = (r, h') \<Longrightarrow>
     extends h h' \<and> observe h' r = Seen_boolean (isDateInPeriod tz date (period_value h period))"
  by (auto simp: isDateInPeriod_st_def isDateInPeriod_def new_Date_def date_value_appended extends_appended Let_def)

lemma run_formatDate:
  assumes "formatDate_st tz date h = (r, h')"
  shows "extends h h' \<and> observe h' r = Seen_text (formatDate tz date)"
proof -
  have n: "new_Date (Date_parse tz date) h
      = (length (dates h), h\<lparr>dates := dates h @ [Date_parse tz date]\<rparr>)"
    by (simp add: new_Date_def)
  show ?thesis
    using assms unfolding formatDate_st_def n prod.case date_value_appended formatDate_def Let_def
    by (clarsimp simp: extends_appended split del: if_split cong: if_cong)
qed

lemma run_getWeekNumberByDate:
  "getWeekNumberByDate_st tz date h = (r, h') \<Longrightarrow>
     extends h h' \<and> observe h' r = Seen_number (getWeekNumberByDate tz (date_value h date))"
  by (auto simp: getWeekNumberByDate_st_def getWeekNumberByDate_def new_Date_def date_value_appended extends_appended Let_def)

lemma run_getQuarter:
  "getQuarter_st tz date h = (r, h') \<Longrightarrow>
     extends h h' \<and> observe h' r = Seen_integer (getQuarter tz (date_value h date))"
  by (auto simp: getQuarter_st_def getQuarter_def new_Date_def date_value_appended extends_appended Let_def)

lemma run_isLeapYear:
  "isLeapYear_st tz date h = (r, h') \<Longrightarrow>
     extends h h' \<and> observe h' r = Seen_boolean (isLeapYear tz (date_value h date))"
  by (auto simp: isLeapYear_st_def isLeapYear_def new_Date_def date_value_appended extends_appended Let_def)

lemma run_getNextFriday:
  assumes "getNextFriday_st tz date h = (r, h')"
  shows "extends h h' \<and> observe h' r = Seen_date (getNextFriday tz (date_value h date))"
proof -
  define x where "x = date_value h date"
  define y where "y = Date_ymd tz (getFullYear tz x) (getMonth tz x) (num_add (getDate tz x) (Some 7))"
  define a where "a = length (dates h)"
  define h2 where "h2 = h\<lparr>dates := dates h @ [x, y]\<rparr>"
  have e: "getNextFriday_st tz date h = getNextFriday_loop_st tz a (Suc a) a 0 h2"
    by (simp add: getNextFriday_st_def new_Date_def date_value_def x_def y_def a_def h2_def)
  have "getNextFriday_loop_st tz a (Suc a) a 0 h2
      = (Date_ref a, h2\<lparr>dates := (dates h2)[a := getNextFriday_loop tz y x 0]\<rparr>)"
    by (rule getNextFriday_loop_st_eq) (simp_all add: h2_def a_def date_value_def nth_append)
  then have r: "r = Date_ref a" "h' = h2\<lparr>dates := (dates h2)[a := getNextFriday_loop tz y x 0]\<rparr>"
    using assms e by simp_all
  have "extends h h'"
    by (rule dates_update_extends[of _ _ "[x, y]" a _ "[]" "[]"]) (simp_all add: r h2_def a_def)
  moreover have "observe h' r = Seen_date (getNextFriday tz x)"
    by (simp add: r h2_def a_def date_value_def getNextFriday_def y_def)
  ultimately show ?thesis by (simp add: x_def)
qed

lemma run_getCountWeekendsInMonth:
  assumes "getCountWeekendsInMonth_st tz month year h = (r, h')"
  shows "extends h h' \<and> observe h' r = Seen_integer (getCountWeekendsInMonth tz month year)"
proof -
  define x where "x = Date_ymd tz (Some year) (Some (month - 1)) (Some 1)"
  define y where "y = Date_ymd tz (Some year) (Some month) (Some 0)"
  define a where "a = length (dates h)"
  define h2 where "h2 = h\<lparr>dates := dates h @ [x, y]\<rparr>"
  have e: "getCountWeekendsInMonth_st tz month year h
      = getCountWeekendsInMonth_loop_st tz (Suc a) a 0 h2"
    by (simp add: getCountWeekendsInMonth_st_def new_Date_def x_def y_def a_def h2_def)
  have "\<exists>v. getCountWeekendsInMonth_loop_st tz (Suc a) a 0 h2
      = (Integer (getCountWeekendsInMonth_loop tz y x 0), h2\<lparr>dates := (dates h2)[a := v]\<rparr>)"
    by (rule getCountWeekendsInMonth_loop_st_eq)
       (simp_all add: h2_def a_def date_value_def nth_append)
  then obtain v where r: "r = Integer (getCountWeekendsInMonth_loop tz y x 0)"
    "h' = h2\<lparr>dates := (dates h2)[a := v]\<rparr>"
    using assms e by auto
  have "extends h h'"
    by (rule dates_update_extends[of _ _ "[x, y]" a _ "[]" "[]"]) (simp_all add: r h2_def a_def)
  then show ?thesis by (simp add: r getCountWeekendsInMonth_def x_def y_def)
qed

lemma run_getNextFridayThe13th:
  assumes "getNextFridayThe13th_st tz date h = (r, h')"
  shows "extends h h' \<and> observe h' r =
     (case getNextFridayThe13th tz (date_value h date) of
        Undefined \<Rightarrow> Seen_nothing | DateObject t \<Rightarrow> Seen_date t)"
proof -
  define x where "x = date_value h date"
  define y where "y = Date_ymd tz (num_add (getFullYear tz x) (Some 1)) (Some 0) (Some 0)"
  define a where "a = length (dates h)"
  define h2 where "h2 = h\<lparr>dates := dates h @ [x, y]\<rparr>"
  have e: "getNextFridayThe13th_st tz date h = getNextFridayThe13th_loop_st tz (Suc a) a h2"
    by (simp add: getNextFridayThe13th_st_def new_Date_def date_value_def x_def y_def a_def
        h2_def)
  have "\<exists>v. getNextFridayThe13th_loop_st tz (Suc a) a h2 =
           (case getNextFridayThe13th_loop tz y x of
              Undefined \<Rightarrow> (Nothing, h2\<lparr>dates := (dates h2)[a := v]\<rparr>)
            | DateObject t \<Rightarrow>
                (Date_ref (length (dates h2)), h2\<lparr>dates := (dates h2)[a := v] @ [t]\<rparr>))"
    by (rule getNextFridayThe13th_loop_st_eq)
       (simp_all add: h2_def a_def date_value_def nth_append)
  then obtain v where v: "(r, h') =
           (case getNextFridayThe13th_loop tz y x of
              Undefined \<Rightarrow> (Nothing, h2\<lparr>dates := (dates h2)[a := v]\<rparr>)
            | DateObject t \<Rightarrow>
                (Date_ref (length (dates h2)), h2\<lparr>dates := (dates h2)[a := v] @ [t]\<rparr>))"
    using assms e by auto
  have p: "getNextFridayThe13th tz x = getNextFridayThe13th_loop tz y x"
    by (simp add: getNextFridayThe13th_def y_def)
  show ?thesis
  proof (cases "getNextFridayThe13th_loop tz y x")
    case Undefined
    then have r: "r = Nothing" "h' = h2\<lparr>dates := (dates h2)[a := v]\<rparr>" using v by simp_all
    have "extends h h'"
      by (rule dates_update_extends[of _ _ "[x, y]" a _ "[]" "[]"]) (simp_all add: r h2_def a_def)
    then show ?thesis by (simp add: r x_def[symmetric] p Undefined)
  next
    case (DateObject t)
    then have r: "r = Date_ref (length (dates h2))"
      "h' = h2\<lparr>dates := (dates h2)[a := v] @ [t]\<rparr>" using v by simp_all
    have "extends h h'"
      by (rule dates_update_extends[of _ _ "[x, y]" a _ "[t]" "[]"]) (simp_all add: r h2_def a_def)
    moreover have "date_value h' (length (dates h2)) = t"
      by (simp add: r date_value_def nth_append)
    ultimately show ?thesis by (simp add: r(1) x_def[symmetric] p DateObject)
  qed
qed

lemma run_getWorkSchedule:
  assumes "getWorkSchedule_st tz period countWorkDays countOffDays h = (r, h')"
  shows "extends h h' \<and> observe h' r =
     Seen_array (getWorkSchedule tz (period_value h period) countWorkDays countOffDays)"
proof -
  define p where "p = period_value h period"
  define x where "x = Date_ymd tz (ToNumber (index (split_on CHR ''-'' (start p)) 2))
      (num_sub (ToNumber (index (split_on CHR ''-'' (start p)) 1)) (Some 1))
      (ToNumber (index (split_on CHR ''-'' (start p)) 0))"
  define y where "y = Date_ymd tz (ToNumber (index (split_on CHR ''-'' (finish p)) 2))
      (num_sub (ToNumber (index (split_on CHR ''-'' (finish p)) 1)) (Some 1))
      (ToNumber (index (split_on CHR ''-'' (finish p)) 0))"
  define a where "a = length (dates h)"
  define m where "m = length (arrays h)"
  define h3 where "h3 = h\<lparr>dates := dates h @ [x, y], arrays := arrays h @ [[]]\<rparr>"
  have e: "getWorkSchedule_st tz period countWorkDays countOffDays h
      = getWorkSchedule_loop_st tz countWorkDays countOffDays (Suc a) m a 1 h3"
    by (simp add: getWorkSchedule_st_def Let_def new_Date_def new_Array_def p_def x_def y_def
        a_def m_def h3_def)
  have "\<exists>v. getWorkSchedule_loop_st tz countWorkDays countOffDays (Suc a) m a 1 h3
         = (Array_ref m,
            h3\<lparr>dates := (dates h3)[a := v],
               arrays := (arrays h3)[m := getWorkSchedule_loop tz countWorkDays countOffDays y x
                                             (1, [])]\<rparr>)"
    by (rule getWorkSchedule_loop_st_eq)
       (simp_all add: h3_def a_def m_def date_value_def array_value_def nth_append)
  then obtain v where r: "r = Array_ref m"
    "h' = h3\<lparr>dates := (dates h3)[a := v],
               arrays := (arrays h3)[m := getWorkSchedule_loop tz countWorkDays countOffDays y x
                                             (1, [])]\<rparr>"
    using assms e by auto
  have "extends h h'"
    by (rule dates_update_extends[of _ _ "[x, y]" a _ "[]"
          "[getWorkSchedule_loop tz countWorkDays countOffDays y x (1, [])]"])
       (simp_all add: r h3_def a_def m_def)
  moreover have "array_value h' m = getWorkSchedule_loop tz countWorkDays countOffDays y x (1, [])"
    by (simp add: r h3_def m_def array_value_def)
  ultimately show ?thesis
    by (simp add: r(1) getWorkSchedule_def Let_def p_def[symmetric] x_def y_def)
qed

lemma invoke_run:
  assumes "invoke tz c h = (r, h')"
  shows "extends h h' \<and> observe h' r = result_of tz h c"
  using assms
  by (cases c)
     (simp_all add: run_dateToTimestamp run_getTime run_getDayName run_getNextFriday
       run_getCountDaysInMonth run_getCountDaysOnPeriod run_isDateInPeriod run_formatDate
       run_getCountWeekendsInMonth run_getWeekNumberByDate run_getNextFridayThe13th
       run_getQuarter run_getWorkSchedule run_isLeapYear)

lemma result_of_extends:
  assumes "extends h h'" "args_in_store h c"
  shows "result_of tz h' c = result_of tz h c"
  using assms by (cases c) (simp_all add: date_value_extends period_value_extends)


text \<open>
  C8. Every exported function, called on arguments that are objects of the store, leaves
  every Date, period and array that existed before the call as it was (the loops of
  getNextFriday, getCountWeekendsInMonth, getNextFridayThe13th and getWorkSchedule move
  a Date that the call has created itself), and a second call with the same arguments,
  made after the first one has returned, gives the caller the same result.
\<close>

theorem calls_are_pure:
  assumes "args_in_store h c"
    and "invoke tz c h = (r, h')"
    and "invoke tz c h' = (r', h'')"
  shows "take (length (dates h)) (dates h') = dates h
       \<and> periods h' = periods h
       \<and> take (length (arrays h)) (arrays h') = arrays h
       \<and> observe h'' r' = observe h' r"
proof -
  have e: "extends h h'" and o: "observe h' r = result_of tz h c"
    using invoke_run[OF assms(2)] by simp_all
  have "observe h'' r' = result_of tz h' c"
    using invoke_run[OF assms(3)] by simp
  also have "\<dots> = result_of tz h c"
    using result_of_extends[OF e assms(1)] .
  finally have "observe h'' r' = observe h' r" using o by simp
  then show ?thesis using e by (auto simp: extends_def)
qed

text \<open>
  getNextFriday called twice on the same Date object, Saturday 3 February 2024, 00:00 UTC:
  the object still holds that time after the first call, and both calls return a Date
  with the same time.
\<close>

theorem getNextFriday_called_twice:
  "args_in_store \<lparr>dates = [Some 1706918400000], periods = [], arrays = []\<rparr>
      (Call_getNextFriday 0)
   \<and> (case invoke (fixed_offset 0) (Call_getNextFriday 0)
              \<lparr>dates = [Some 1706918400000], periods = [], arrays = []\<rparr> of
        (r, h') \<Rightarrow>
          (case invoke (fixed_offset 0) (Call_getNextFriday 0) h' of
             (r', h'') \<Rightarrow>
               date_value h' 0 = Some 1706918400000 \<and> observe h'' r' = observe h' r))"
proof -
  define h where "h = \<lparr>dates = [Some 1706918400000], periods = [], arrays = []\<rparr>"
  obtain r h' where a: "invoke (fixed_offset 0) (Call_getNextFriday 0) h = (r, h')"
    by (cases "invoke (fixed_offset 0) (Call_getNextFriday 0) h")
  obtain r' h'' where b: "invoke (fixed_offset 0) (Call_getNextFriday 0) h' = (r', h'')"
    by (cases "invoke (fixed_offset 0) (Call_getNextFriday 0) h'")
  have c: "args_in_store h (Call_getNextFriday 0)"
    by (simp add: h_def)
  have "take (length (dates h)) (dates h') = dates h" and o: "observe h'' r' = observe h' r"
    using calls_are_pure[OF c a b] by simp_all
  then have "take 1 (dates h') = [Some 1706918400000]"
    by (simp add: h_def)
  then have "date_value h' 0 = Some 1706918400000"
    by (cases "dates h'") (simp_all add: date_value_def)
  then show ?thesis
    using a b c o unfolding h_def by simp
qed

end
